theory Spec2Isabelle
  imports Main "HOL-Library.AList" "HOL-Library.Multiset"
begin

section \<open>PodTrack: the playback-tracking accumulator of SpotifyService\<close>

text \<open>
  The theory embeds the tracking part of \<^verbatim>\<open>class SpotifyService\<close>
  (services/spotifyService.ts): \<^verbatim>\<open>getCurrentlyPlaying\<close>, \<^verbatim>\<open>storeEpisode\<close>,
  \<^verbatim>\<open>updateSessionEnd\<close>, \<^verbatim>\<open>getStoredEpisodes\<close>, \<^verbatim>\<open>startPlaybackTracking\<close> with the
  timer callback, \<^verbatim>\<open>stopPlaybackTracking\<close>, \<^verbatim>\<open>getRecentlyPlayedEpisodes\<close> and
  \<^verbatim>\<open>clearStoredEpisodes\<close>.

  Conventions of the embedding.
  \<^item> Numbers are integers (\<^typ>\<open>int\<close>): every number the tracker handles is a count of
    milliseconds (\<^verbatim>\<open>Date.now()\<close>, \<^verbatim>\<open>duration_ms\<close>, \<^verbatim>\<open>progress_ms\<close>).
  \<^item> A timestamp written by \<^verbatim>\<open>new Date().toISOString()\<close> is kept as the millisecond
    count it encodes; \<^verbatim>\<open>new Date(s).getTime()\<close> reads the same count back.
  \<^item> The entry of \<^verbatim>\<open>localStorage\<close> under \<^verbatim>\<open>STORAGE_KEY\<close> is \<open>None\<close> when the key is
    absent and otherwise the object that \<^verbatim>\<open>JSON.parse\<close> returns for the stored text: an
    association list from episode id to record, in the order in which \<^verbatim>\<open>Object.values\<close>
    and \<^verbatim>\<open>JSON.stringify\<close> list the own properties (array indices first, in ascending
    order, then the other keys in the order of their creation). The stored text is
    always one that \<^verbatim>\<open>JSON.stringify\<close> wrote, so \<^verbatim>\<open>JSON.parse\<close> does not throw.
  \<^item> \<^verbatim>\<open>episodes[episodeId]\<close> also finds the properties that the parsed object inherits
    from \<^verbatim>\<open>Object.prototype\<close>; such a value has no \<^verbatim>\<open>sessions\<close>, and reading
    \<^verbatim>\<open>sessions.length\<close> from it throws a \<^verbatim>\<open>TypeError\<close>.
  \<^item> \<^verbatim>\<open>localStorage.setItem\<close> may throw (the quota is exceeded); whether a write is
    accepted is an input of the run. An error inside \<^verbatim>\<open>storeEpisode\<close> or
    \<^verbatim>\<open>updateSessionEnd\<close> is caught there and logged: the operation returns with the
    store as it was, and its caller goes on.
  \<^item> A field of the provider's payload that the source guards with \<^verbatim>\<open>||\<close> or \<^verbatim>\<open>?.\<close> is
    optional in the payload (\<open>None\<close> is \<^verbatim>\<open>null\<close>); \<^verbatim>\<open>id\<close>, \<^verbatim>\<open>name\<close>, \<^verbatim>\<open>type\<close> and
    \<^verbatim>\<open>duration_ms\<close> are present, as \<^verbatim>\<open>interface SpotifyEpisode\<close> declares them.
  \<^item> Each run of the timer callback ends before the next one starts.
  \<^item> The clock is read up to three times in one run of the callback (\<^verbatim>\<open>Date.now()\<close> at
    its start, \<^verbatim>\<open>new Date()\<close> in \<^verbatim>\<open>updateSessionEnd\<close> and in \<^verbatim>\<open>storeEpisode\<close>); the three
    readings are inputs of the run.
\<close>

subsection \<open>Stored records\<close>

record session =
  started_at :: int
  ended_at :: "int option"
  session_progress_ms :: int

record show_info =
  show_id :: string
  show_name :: string
  publisher :: string
  show_images :: "string list"

record StoredEpisode =
  episode_id :: string
  name :: string
  description :: string
  duration_ms :: int
  release_date :: string
  images :: "string list"
  episode_type :: string
  parent_show :: show_info
  played_at :: int
  progress_ms :: int
  total_played_ms :: int
  last_played_at :: int
  first_played_at :: int
  sessions :: "session list"

type_synonym ledger = "(string \<times> StoredEpisode) list"

text \<open>The reporting shape \<^verbatim>\<open>SpotifyEpisode\<close> returned by \<^verbatim>\<open>getRecentlyPlayedEpisodes\<close>.\<close>

record SpotifyEpisode =
  rep_id :: string
  rep_name :: string
  rep_description :: string
  rep_duration_ms :: int
  rep_release_date :: string
  rep_images :: "string list"
  rep_type :: string
  rep_show :: show_info
  rep_played_at :: int
  rep_progress_ms :: int
  rep_total_played_ms :: int

subsection \<open>The provider's payload\<close>

record show_payload =
  sp_id :: "string option"
  sp_name :: "string option"
  sp_publisher :: "string option"
  sp_images :: "string list option"

record episode_payload =
  item_id :: string
  item_type :: string
  item_name :: string
  item_description :: "string option"
  item_duration_ms :: int
  item_release_date :: "string option"
  item_images :: "string list option"
  item_show :: "show_payload option"

record playback =
  pb_item :: "episode_payload option"
  is_playing :: bool
  pb_progress_ms :: "int option"

text \<open>
  What \<^verbatim>\<open>fetchWithAuth\<close> gives \<^verbatim>\<open>getCurrentlyPlaying\<close>: an exception (no token, network
  error, unreadable body), status 204, another status that is not ok, or a body.
\<close>

datatype response = FetchThrew | NoContent | NotOk | OkJson playback

subsection \<open>The service and its environment\<close>

text \<open>
  The three private fields of the service, the ledger entry of \<^verbatim>\<open>localStorage\<close> and the
  interval timers of the window that are running.
\<close>

record service_state =
  pollingInterval :: "nat option"
  lastPollTime :: int
  lastEpisodeId :: "string option"
  storage :: "ledger option"
  timers :: "nat list"

text \<open>
  The inputs of one run of the timer callback: the reading of \<^verbatim>\<open>Date.now()\<close>, the answer
  to the fetch, the readings of \<^verbatim>\<open>new Date()\<close> in \<^verbatim>\<open>updateSessionEnd\<close> and in
  \<^verbatim>\<open>storeEpisode\<close>, and whether \<^verbatim>\<open>setItem\<close> accepts the write of each of the two.
\<close>

record tick_input =
  tick_now :: int
  tick_response :: response
  close_clock :: int
  store_clock :: int
  close_write_ok :: bool
  store_write_ok :: bool

subsection \<open>JavaScript's truthiness and \<^verbatim>\<open>||\<close>\<close>

definition truthy_id :: "string option \<Rightarrow> bool" where
  \<comment> \<open>\<^verbatim>\<open>if (this.lastEpisodeId)\<close>: \<^verbatim>\<open>null\<close> and the empty string are falsy.\<close>
  "truthy_id v = (case v of None \<Rightarrow> False | Some s \<Rightarrow> s \<noteq> [])"

definition truthy_handle :: "nat option \<Rightarrow> bool" where
  \<comment> \<open>\<^verbatim>\<open>if (this.pollingInterval)\<close>: \<^verbatim>\<open>null\<close> and 0 are falsy.\<close>
  "truthy_handle v = (case v of None \<Rightarrow> False | Some n \<Rightarrow> n \<noteq> 0)"

definition or_num :: "int \<Rightarrow> int \<Rightarrow> int" where
  "or_num x d = (if x = 0 then d else x)"

definition or_str :: "string option \<Rightarrow> string \<Rightarrow> string" where
  "or_str v d = (case v of None \<Rightarrow> d | Some s \<Rightarrow> if s = [] then d else s)"

definition or_list :: "'a list option \<Rightarrow> 'a list \<Rightarrow> 'a list" where
  \<comment> \<open>An array is truthy, also when empty.\<close>
  "or_list v d = (case v of None \<Rightarrow> d | Some xs \<Rightarrow> xs)"

subsection \<open>Properties of a parsed object\<close>

datatype js_error = TypeError | QuotaExceededError

datatype 'a property = Undefined | Inherited | Own 'a

definition object_prototype_names :: "string list" where
  \<comment> \<open>The properties that every plain object inherits from \<^verbatim>\<open>Object.prototype\<close>.\<close>
  "object_prototype_names =
     [''constructor'', ''__defineGetter__'', ''__defineSetter__'', ''hasOwnProperty'',
      ''__lookupGetter__'', ''__lookupSetter__'', ''isPrototypeOf'', ''propertyIsEnumerable'',
      ''toString'', ''valueOf'', ''__proto__'', ''toLocaleString'']"

definition get_property :: "(string \<times> 'v) list \<Rightarrow> string \<Rightarrow> 'v property" where
  \<comment> \<open>\<^verbatim>\<open>obj[k]\<close>: an own property, else an inherited one, else \<^verbatim>\<open>undefined\<close>.\<close>
  "get_property obj k =
     (case map_of obj k of
        Some v \<Rightarrow> Own v
      | None \<Rightarrow> if k \<in> set object_prototype_names then Inherited else Undefined)"

definition digit_value :: "char \<Rightarrow> int option" where
  \<comment> \<open>The value of a decimal digit, \<open>None\<close> for any other character.\<close>
  "digit_value c = map_of (zip ''0123456789'' [0, 1, 2, 3, 4, 5, 6, 7, 8, 9]) c"

definition decimal :: "string \<Rightarrow> int" where
  "decimal k = foldl (\<lambda>a c. case digit_value c of None \<Rightarrow> a | Some d \<Rightarrow> 10 * a + d) 0 k"

definition array_index :: "string \<Rightarrow> int option" where
  \<comment> \<open>A key is an array index when it is the decimal form, without leading zeros, of
      an integer below 4294967295.\<close>
  "array_index k =
     (if k = [] then None
      else if list_ex (\<lambda>c. digit_value c = None) k then None
      else if hd k = CHR ''0'' \<and> tl k \<noteq> [] then None
      else if decimal k < 4294967295 then Some (decimal k) else None)"

fun insert_index :: "int \<Rightarrow> string \<Rightarrow> 'v \<Rightarrow> (string \<times> 'v) list \<Rightarrow> (string \<times> 'v) list" where
  "insert_index n k v [] = [(k, v)]"
| "insert_index n k v (p # ps) =
     (case array_index (fst p) of
        None \<Rightarrow> (k, v) # p # ps
      | Some m \<Rightarrow> if m < n then p # insert_index n k v ps else (k, v) # p # ps)"

definition set_property :: "string \<Rightarrow> 'v \<Rightarrow> (string \<times> 'v) list \<Rightarrow> (string \<times> 'v) list" where
  \<comment> \<open>The own properties after \<^verbatim>\<open>obj[k] = v\<close>, or after a write through the reference
      \<^verbatim>\<open>obj[k]\<close> to an own property: a present key keeps its place, a new array index goes
      among the array indices, any other new key goes to the end.\<close>
  "set_property k v obj =
     (case map_of obj k of
        Some old \<Rightarrow> AList.update k v obj
      | None \<Rightarrow>
          (case array_index k of
             None \<Rightarrow> obj @ [(k, v)]
           | Some n \<Rightarrow> insert_index n k v obj))"

subsection \<open>The snapshot fetcher\<close>

definition getCurrentlyPlaying :: "response \<Rightarrow> playback option" where
  "getCurrentlyPlaying r =
     (case r of
        FetchThrew \<Rightarrow> None
      | NoContent \<Rightarrow> None
      | NotOk \<Rightarrow> None
      | OkJson p \<Rightarrow> Some p)"

subsection \<open>The ledger operations\<close>

definition last_session :: "session list \<Rightarrow> session option" where
  \<comment> \<open>\<^verbatim>\<open>sessions[sessions.length - 1]\<close>, \<^verbatim>\<open>undefined\<close> on an empty array.\<close>
  "last_session ss = (if ss = [] then None else Some (last ss))"

definition set_last :: "session \<Rightarrow> session list \<Rightarrow> session list" where
  \<comment> \<open>The array after a write through the reference to its last element.\<close>
  "set_last s ss = butlast ss @ [s]"

definition new_episode :: "episode_payload \<Rightarrow> int \<Rightarrow> int \<Rightarrow> int \<Rightarrow> StoredEpisode" where
  "new_episode episodeData progress timePlayedMs now =
     \<lparr> episode_id = item_id episodeData,
       name = item_name episodeData,
       description = or_str (item_description episodeData) [],
       duration_ms = item_duration_ms episodeData,
       release_date = or_str (item_release_date episodeData) [],
       images = or_list (item_images episodeData) [],
       episode_type = or_str (Some (item_type episodeData)) ''episode'',
       parent_show =
         \<lparr> show_id = or_str (Option.bind (item_show episodeData) sp_id) [],
           show_name = or_str (Option.bind (item_show episodeData) sp_name) [],
           publisher = or_str (Option.bind (item_show episodeData) sp_publisher) [],
           show_images = or_list (Option.bind (item_show episodeData) sp_images) [] \<rparr>,
       played_at = now,
       progress_ms = min progress (or_num (item_duration_ms episodeData) 0),
       total_played_ms = min timePlayedMs (or_num (item_duration_ms episodeData) 0),
       last_played_at = now,
       first_played_at = now,
       sessions = [\<lparr> started_at = now, ended_at = None, session_progress_ms = progress \<rparr>] \<rparr>"

definition update_existing ::
  "StoredEpisode \<Rightarrow> episode_payload \<Rightarrow> int \<Rightarrow> int \<Rightarrow> int \<Rightarrow> StoredEpisode" where
  \<comment> \<open>The branch \<^verbatim>\<open>if (episodes[episodeId])\<close> of \<^verbatim>\<open>storeEpisode\<close>.\<close>
  "update_existing existing episodeData progress timePlayedMs now =
     (let maxProgress = or_num (item_duration_ms episodeData) (duration_ms existing);
          existing1 = existing\<lparr> last_played_at := now,
                                progress_ms := min progress maxProgress \<rparr>
      in case last_session (sessions existing1) of
           None \<Rightarrow>
             existing1\<lparr> sessions := sessions existing1 @
                           [\<lparr> started_at = now, ended_at = None,
                              session_progress_ms = progress \<rparr>],
                        total_played_ms :=
                           min (or_num (total_played_ms existing1) 0 + timePlayedMs) maxProgress \<rparr>
         | Some currentSession \<Rightarrow>
             if ended_at currentSession = None then
               existing1\<lparr> sessions := set_last
                             (currentSession\<lparr> session_progress_ms := min progress maxProgress \<rparr>)
                             (sessions existing1),
                          total_played_ms :=
                             min (or_num (total_played_ms existing1) 0 + timePlayedMs) maxProgress \<rparr>
             else
               existing1\<lparr> sessions := sessions existing1 @
                             [\<lparr> started_at = now, ended_at = None,
                                session_progress_ms = progress \<rparr>],
                          total_played_ms :=
                             min (or_num (total_played_ms existing1) 0 + timePlayedMs) maxProgress \<rparr>)"

definition setItem :: "bool \<Rightarrow> service_state \<Rightarrow> ledger \<Rightarrow> js_error + service_state" where
  \<comment> \<open>\<^verbatim>\<open>localStorage.setItem(this.STORAGE_KEY, JSON.stringify(episodes))\<close>\<close>
  "setItem accepted st episodes =
     (if accepted then Inr (st\<lparr> storage := Some episodes \<rparr>) else Inl QuotaExceededError)"

definition storeEpisode_try ::
  "service_state \<Rightarrow> episode_payload \<Rightarrow> int \<Rightarrow> int \<Rightarrow> int \<Rightarrow> bool \<Rightarrow> js_error + service_state" where
  \<comment> \<open>The \<^verbatim>\<open>try\<close> block of \<^verbatim>\<open>storeEpisode\<close>. For an inherited property the branch for
      an existing episode is taken and throws at \<^verbatim>\<open>existing.sessions.length\<close>; what it
      wrote before into the inherited value is read by no operation of the service.\<close>
  "storeEpisode_try st episodeData progress timePlayedMs now accepted =
     (let episodes = (case storage st of None \<Rightarrow> [] | Some l \<Rightarrow> l);
          episodeId = item_id episodeData
      in case get_property episodes episodeId of
           Own existing \<Rightarrow>
             setItem accepted st (set_property episodeId
               (update_existing existing episodeData progress timePlayedMs now) episodes)
         | Inherited \<Rightarrow> Inl TypeError
         | Undefined \<Rightarrow>
             setItem accepted st (set_property episodeId
               (new_episode episodeData progress timePlayedMs now) episodes))"

definition storeEpisode ::
  "service_state \<Rightarrow> episode_payload \<Rightarrow> int \<Rightarrow> int \<Rightarrow> int \<Rightarrow> bool \<Rightarrow> service_state" where
  \<comment> \<open>The \<^verbatim>\<open>catch\<close> block only logs the error.\<close>
  "storeEpisode st episodeData progress timePlayedMs now accepted =
     (case storeEpisode_try st episodeData progress timePlayedMs now accepted of
        Inl error \<Rightarrow> st
      | Inr st' \<Rightarrow> st')"

definition close_session :: "StoredEpisode \<Rightarrow> session \<Rightarrow> int \<Rightarrow> int \<Rightarrow> StoredEpisode" where
  \<comment> \<open>The body of \<^verbatim>\<open>if (lastSession && !lastSession.ended_at)\<close> in \<^verbatim>\<open>updateSessionEnd\<close>.\<close>
  "close_session episode lastSession finalTimeMs now =
     episode\<lparr> sessions := set_last (lastSession\<lparr> ended_at := Some now \<rparr>) (sessions episode),
              total_played_ms :=
                 min (or_num (total_played_ms episode) 0 + finalTimeMs)
                     (or_num (duration_ms episode) 0) \<rparr>"

definition updateSessionEnd_try ::
  "service_state \<Rightarrow> string \<Rightarrow> int \<Rightarrow> int \<Rightarrow> bool \<Rightarrow> js_error + service_state" where
  \<comment> \<open>The \<^verbatim>\<open>try\<close> block of \<^verbatim>\<open>updateSessionEnd\<close>; an inherited property has no
      \<^verbatim>\<open>sessions\<close>, so \<^verbatim>\<open>episode.sessions.length\<close> throws.\<close>
  "updateSessionEnd_try st episodeId finalTimeMs now accepted =
     (case storage st of
        None \<Rightarrow> Inr st
      | Some episodes \<Rightarrow>
          (case get_property episodes episodeId of
             Undefined \<Rightarrow> Inr st
           | Inherited \<Rightarrow> Inl TypeError
           | Own episode \<Rightarrow>
               (case last_session (sessions episode) of
                  None \<Rightarrow> Inr st
                | Some lastSession \<Rightarrow>
                    if ended_at lastSession = None then
                      setItem accepted st (set_property episodeId
                        (close_session episode lastSession finalTimeMs now) episodes)
                    else Inr st)))"

definition updateSessionEnd ::
  "service_state \<Rightarrow> string \<Rightarrow> int \<Rightarrow> int \<Rightarrow> bool \<Rightarrow> service_state" where
  \<comment> \<open>The \<^verbatim>\<open>catch\<close> block only logs the error.\<close>
  "updateSessionEnd st episodeId finalTimeMs now accepted =
     (case updateSessionEnd_try st episodeId finalTimeMs now accepted of
        Inl error \<Rightarrow> st
      | Inr st' \<Rightarrow> st')"

definition getStoredEpisodes :: "service_state \<Rightarrow> StoredEpisode list" where
  \<comment> \<open>\<^verbatim>\<open>Array.prototype.sort\<close> is stable; the comparator is \<^verbatim>\<open>b - a\<close> on the times.\<close>
  "getStoredEpisodes st =
     (case storage st of
        None \<Rightarrow> []
      | Some episodes \<Rightarrow> sort_key (\<lambda>e. - last_played_at e) (map snd episodes))"

definition slice0 :: "'a list \<Rightarrow> int \<Rightarrow> 'a list" where
  \<comment> \<open>\<^verbatim>\<open>xs.slice(0, end)\<close>: a negative \<^verbatim>\<open>end\<close> counts from the end of the array.\<close>
  "slice0 xs e =
     (let n = int (length xs);
          final = (if e < 0 then max (n + e) 0 else min e n)
      in take (nat final) xs)"

definition to_report :: "StoredEpisode \<Rightarrow> SpotifyEpisode" where
  "to_report stored =
     \<lparr> rep_id = episode_id stored,
       rep_name = name stored,
       rep_description = description stored,
       rep_duration_ms = duration_ms stored,
       rep_release_date = release_date stored,
       rep_images = images stored,
       rep_type = episode_type stored,
       rep_show = parent_show stored,
       rep_played_at = last_played_at stored,
       rep_progress_ms = progress_ms stored,
       rep_total_played_ms = total_played_ms stored \<rparr>"

definition getRecentlyPlayedEpisodes :: "service_state \<Rightarrow> int option \<Rightarrow> SpotifyEpisode list" where
  \<comment> \<open>The parameter is \<^verbatim>\<open>limit = 50\<close>: an omitted argument is 50.\<close>
  "getRecentlyPlayedEpisodes st limit =
     (let storedEpisodes = getStoredEpisodes st;
          lim = (case limit of None \<Rightarrow> 50 | Some l \<Rightarrow> l)
      in map to_report (slice0 storedEpisodes lim))"

definition clearStoredEpisodes :: "service_state \<Rightarrow> service_state" where
  "clearStoredEpisodes st = st\<lparr> storage := None \<rparr>"

subsection \<open>The tracking loop\<close>

definition startPlaybackTracking :: "service_state \<Rightarrow> int \<Rightarrow> nat \<Rightarrow> service_state" where
  \<comment> \<open>\<open>now\<close> is the reading of \<^verbatim>\<open>Date.now()\<close>, \<open>h\<close> the handle \<^verbatim>\<open>setInterval\<close> returns.\<close>
  "startPlaybackTracking st now h =
     (if truthy_handle (pollingInterval st) then st
      else st\<lparr> lastPollTime := now,
               lastEpisodeId := None,
               pollingInterval := Some h,
               timers := timers st @ [h] \<rparr>)"

definition stopPlaybackTracking :: "service_state \<Rightarrow> service_state" where
  "stopPlaybackTracking st =
     (case pollingInterval st of
        None \<Rightarrow> st
      | Some h \<Rightarrow>
          if h \<noteq> 0 then st\<lparr> timers := removeAll h (timers st), pollingInterval := None \<rparr>
          else st)"

definition end_active :: "service_state \<Rightarrow> int \<Rightarrow> int \<Rightarrow> bool \<Rightarrow> service_state" where
  \<comment> \<open>\<^verbatim>\<open>if (this.lastEpisodeId) { this.updateSessionEnd(...); this.lastEpisodeId = null; }\<close>\<close>
  "end_active st timeSinceLastPoll now accepted =
     (case lastEpisodeId st of
        None \<Rightarrow> st
      | Some prev \<Rightarrow>
          if prev \<noteq> [] then
            (updateSessionEnd st prev timeSinceLastPoll now accepted)\<lparr> lastEpisodeId := None \<rparr>
          else st)"

definition close_previous ::
  "service_state \<Rightarrow> string \<Rightarrow> int \<Rightarrow> int \<Rightarrow> bool \<Rightarrow> service_state" where
  \<comment> \<open>\<^verbatim>\<open>if (this.lastEpisodeId && this.lastEpisodeId !== item.id) this.updateSessionEnd(...)\<close>\<close>
  "close_previous st itemId timeSinceLastPoll now accepted =
     (case lastEpisodeId st of
        None \<Rightarrow> st
      | Some prev \<Rightarrow>
          if prev \<noteq> [] \<and> prev \<noteq> itemId
          then updateSessionEnd st prev timeSinceLastPoll now accepted
          else st)"

definition tick :: "service_state \<Rightarrow> tick_input \<Rightarrow> service_state" where
  \<comment> \<open>One run of the callback given to \<^verbatim>\<open>setInterval\<close>.\<close>
  "tick st inp =
     (let now = tick_now inp;
          timeSinceLastPoll = now - lastPollTime st;
          st1 = st\<lparr> lastPollTime := now \<rparr>
      in case getCurrentlyPlaying (tick_response inp) of
           None \<Rightarrow> end_active st1 timeSinceLastPoll (close_clock inp) (close_write_ok inp)
         | Some pb \<Rightarrow>
             (case pb_item pb of
                None \<Rightarrow> end_active st1 timeSinceLastPoll (close_clock inp) (close_write_ok inp)
              | Some item \<Rightarrow>
                  (let isEpisode = (item_type item = ''episode'');
                       isPlaying = is_playing pb
                   in if isEpisode \<and> isPlaying then
                        (let progress = (case pb_progress_ms pb of
                                           None \<Rightarrow> 0 | Some p \<Rightarrow> or_num p 0);
                             st2 = close_previous st1 (item_id item) timeSinceLastPoll
                                     (close_clock inp) (close_write_ok inp);
                             st3 = storeEpisode st2 item progress timeSinceLastPoll
                                     (store_clock inp) (store_write_ok inp)
                         in st3\<lparr> lastEpisodeId := Some (item_id item) \<rparr>)
                      else if isEpisode \<and> \<not> isPlaying then
                        (if lastEpisodeId st1 = Some (item_id item) then st1 else st1)
                      else end_active st1 timeSinceLastPoll (close_clock inp)
                             (close_write_ok inp))))"

definition run :: "service_state \<Rightarrow> tick_input list \<Rightarrow> service_state" where
  \<comment> \<open>The timer fires once for each input, in order.\<close>
  "run st inps = foldl tick st inps"

subsection \<open>Vocabulary of the properties\<close>

definition ledger_of :: "service_state \<Rightarrow> ledger" where
  "ledger_of st = (case storage st of None \<Rightarrow> [] | Some l \<Rightarrow> l)"

definition lookup :: "service_state \<Rightarrow> string \<Rightarrow> StoredEpisode option" where
  "lookup st k = map_of (ledger_of st) k"

definition total_of :: "service_state \<Rightarrow> string \<Rightarrow> int option" where
  "total_of st k = map_option total_played_ms (lookup st k)"

definition sessions_of :: "service_state \<Rightarrow> string \<Rightarrow> session list" where
  "sessions_of st k = (case lookup st k of None \<Rightarrow> [] | Some e \<Rightarrow> sessions e)"

definition metadata ::
  "StoredEpisode \<Rightarrow> string \<times> string \<times> string \<times> int \<times> string \<times> string list \<times> string \<times> show_info" where
  "metadata e = (episode_id e, name e, description e, duration_ms e, release_date e,
                 images e, episode_type e, parent_show e)"

definition latest_open :: "StoredEpisode \<Rightarrow> bool" where
  \<comment> \<open>The test \<^verbatim>\<open>lastSession && !lastSession.ended_at\<close> of the source.\<close>
  "latest_open e = (case last_session (sessions e) of None \<Rightarrow> False
                    | Some s \<Rightarrow> ended_at s = None)"

definition close_if_open :: "StoredEpisode \<Rightarrow> int \<Rightarrow> int \<Rightarrow> StoredEpisode" where
  "close_if_open e finalTimeMs now =
     (case last_session (sessions e) of
        None \<Rightarrow> e
      | Some s \<Rightarrow> if ended_at s = None then close_session e s finalTimeMs now else e)"

definition open_sessions :: "ledger \<Rightarrow> nat" where
  \<comment> \<open>The number of sessions without \<^verbatim>\<open>ended_at\<close> in the whole ledger.\<close>
  "open_sessions l =
     sum_list (map (\<lambda>(k, e). length (filter (\<lambda>s. ended_at s = None) (sessions e))) l)"

definition tracked_entry :: "string option \<Rightarrow> string \<times> StoredEpisode \<Rightarrow> bool" where
  "tracked_entry active p =
     (list_all (\<lambda>s. ended_at s \<noteq> None) (butlast (sessions (snd p)))
      \<and> (latest_open (snd p) \<longrightarrow> active = Some (fst p)))"

definition well_tracked :: "string option \<Rightarrow> ledger \<Rightarrow> bool" where
  \<comment> \<open>Only the latest session of the active episode may be open.\<close>
  "well_tracked active l =
     (active \<noteq> Some [] \<and> distinct (map fst l) \<and> list_all (tracked_entry active) l)"

definition playing_episode :: "tick_input \<Rightarrow> (episode_payload \<times> int) option" where
  \<comment> \<open>The item and progress of a snapshot that takes the branch \<^verbatim>\<open>isEpisode && isPlaying\<close>.\<close>
  "playing_episode inp =
     (case getCurrentlyPlaying (tick_response inp) of
        None \<Rightarrow> None
      | Some pb \<Rightarrow>
          (case pb_item pb of
             None \<Rightarrow> None
           | Some item \<Rightarrow>
               if item_type item = ''episode'' \<and> is_playing pb
               then Some (item, case pb_progress_ms pb of None \<Rightarrow> 0 | Some p \<Rightarrow> or_num p 0)
               else None))"

definition paused_episode :: "tick_input \<Rightarrow> bool" where
  \<comment> \<open>A snapshot that takes the branch \<^verbatim>\<open>isEpisode && !isPlaying\<close>.\<close>
  "paused_episode inp =
     (case getCurrentlyPlaying (tick_response inp) of
        None \<Rightarrow> False
      | Some pb \<Rightarrow>
          (case pb_item pb of
             None \<Rightarrow> False
           | Some item \<Rightarrow> item_type item = ''episode'' \<and> \<not> is_playing pb))"

definition nothing_playing :: "tick_input \<Rightarrow> bool" where
  \<comment> \<open>No snapshot, no item, or an item that is not an episode.\<close>
  "nothing_playing inp = (playing_episode inp = None \<and> \<not> paused_episode inp)"

definition named_item :: "tick_input \<Rightarrow> bool" where
  \<comment> \<open>The id of a playing episode is not the empty string.\<close>
  "named_item inp = (case playing_episode inp of None \<Rightarrow> True
                     | Some (item, p) \<Rightarrow> item_id item \<noteq> [])"

definition switch_tick :: "service_state \<Rightarrow> tick_input \<Rightarrow> string \<Rightarrow> episode_payload \<Rightarrow> bool" where
  \<comment> \<open>The active episode is \<open>X\<close> and the snapshot reports another episode playing.\<close>
  "switch_tick st inp X item =
     (lastEpisodeId st = Some X \<and> X \<noteq> [] \<and> X \<noteq> item_id item
      \<and> map_option fst (playing_episode inp) = Some item)"

definition bounded_totals :: "ledger \<Rightarrow> bool" where
  "bounded_totals l = list_all (\<lambda>(k, e). total_played_ms e \<le> duration_ms e) l"

definition duration_agrees :: "service_state \<Rightarrow> tick_input \<Rightarrow> bool" where
  \<comment> \<open>A playing episode that is already recorded reports no duration (0) or one that
      does not exceed the stored duration.\<close>
  "duration_agrees st inp =
     (case playing_episode inp of
        None \<Rightarrow> True
      | Some (item, p) \<Rightarrow>
          (case lookup st (item_id item) of
             None \<Rightarrow> True
           | Some e \<Rightarrow> item_duration_ms item = 0 \<or> item_duration_ms item \<le> duration_ms e))"

fun durations_agree :: "service_state \<Rightarrow> tick_input list \<Rightarrow> bool" where
  "durations_agree st [] = True"
| "durations_agree st (inp # inps) =
     (duration_agrees st inp \<and> durations_agree (tick st inp) inps)"

definition duration_of :: "service_state \<Rightarrow> string \<Rightarrow> int option" where
  "duration_of st k = map_option duration_ms (lookup st k)"

definition unavailable :: "response \<Rightarrow> bool" where
  \<comment> \<open>The fetch failed or the provider answered with an error status.\<close>
  "unavailable r = (r = FetchThrew \<or> r = NotOk)"

definition new_session :: "int \<Rightarrow> int \<Rightarrow> session" where
  \<comment> \<open>The object pushed by \<^verbatim>\<open>storeEpisode\<close> when it starts a session.\<close>
  "new_session now progress = \<lparr> started_at = now, ended_at = None, session_progress_ms = progress \<rparr>"

definition inherited_only :: "service_state \<Rightarrow> string \<Rightarrow> bool" where
  \<comment> \<open>The id is no key of the ledger but a property name of \<^verbatim>\<open>Object.prototype\<close>.\<close>
  "inherited_only st k = (get_property (ledger_of st) k = Inherited)"

subsection \<open>Example inputs and states\<close>

definition idle_service :: service_state where
  "idle_service = \<lparr> pollingInterval = None, lastPollTime = 0, lastEpisodeId = None,
                    storage = None, timers = [] \<rparr>"

definition episode_item :: "string \<Rightarrow> int \<Rightarrow> string \<Rightarrow> episode_payload" where
  "episode_item i d pub =
     \<lparr> item_id = i, item_type = ''episode'', item_name = i, item_description = None,
       item_duration_ms = d, item_release_date = None, item_images = None,
       item_show = Some \<lparr> sp_id = Some ''show'', sp_name = Some ''Show'',
                          sp_publisher = Some pub, sp_images = None \<rparr> \<rparr>"

definition snapshot_at :: "int \<Rightarrow> response \<Rightarrow> tick_input" where
  \<comment> \<open>The clock is read 1 ms and 2 ms after the tick starts; every write is accepted.\<close>
  "snapshot_at t r = \<lparr> tick_now = t, tick_response = r, close_clock = t + 1,
                       store_clock = t + 2, close_write_ok = True, store_write_ok = True \<rparr>"

definition playing_at :: "int \<Rightarrow> episode_payload \<Rightarrow> int \<Rightarrow> tick_input" where
  "playing_at t item p =
     snapshot_at t (OkJson \<lparr> pb_item = Some item, is_playing = True, pb_progress_ms = Some p \<rparr>)"

definition paused_at :: "int \<Rightarrow> episode_payload \<Rightarrow> int \<Rightarrow> tick_input" where
  "paused_at t item p =
     snapshot_at t (OkJson \<lparr> pb_item = Some item, is_playing = False, pb_progress_ms = Some p \<rparr>)"

definition listening_X :: service_state where
  "listening_X = run (startPlaybackTracking idle_service 0 1)
                     [playing_at 10000 (episode_item ''X'' 60000 ''Acme'') 0]"

definition record_X :: StoredEpisode where
  "record_X = new_episode (episode_item ''X'' 60000 ''Acme'') 0 10000 10002"

definition stopped_X :: service_state where
  "stopped_X = run listening_X [snapshot_at 20000 NoContent]"

definition closed_record_X :: StoredEpisode where
  "closed_record_X = close_if_open record_X 10000 20001"

definition switched_to_Y :: service_state where
  "switched_to_Y = run listening_X [playing_at 20000 (episode_item ''Y'' 60000 ''Acme'') 0]"

definition restarted_on_Y :: service_state where
  \<comment> \<open>Stop while X is playing, start again, then Y is playing.\<close>
  "restarted_on_Y =
     run (startPlaybackTracking (stopPlaybackTracking listening_X) 30000 2)
         [playing_at 40000 (episode_item ''Y'' 60000 ''Acme'') 0]"

definition short_Z :: service_state where
  \<comment> \<open>Episode Z is first reported with 5 s of duration, then with 60 s.\<close>
  "short_Z = run (startPlaybackTracking idle_service 0 1)
                 [playing_at 10000 (episode_item ''Z'' 5000 ''Acme'') 0,
                  playing_at 20000 (episode_item ''Z'' 60000 ''Acme'') 10000]"

definition close_refused_at :: "int \<Rightarrow> response \<Rightarrow> tick_input" where
  \<comment> \<open>A tick during which \<^verbatim>\<open>setItem\<close> throws in \<^verbatim>\<open>updateSessionEnd\<close>.\<close>
  "close_refused_at t r = (snapshot_at t r)\<lparr> close_write_ok := False \<rparr>"

definition switched_to_constructor :: service_state where
  \<comment> \<open>X is playing, then an episode whose id is \<^verbatim>\<open>constructor\<close>.\<close>
  "switched_to_constructor =
     run listening_X [playing_at 20000 (episode_item ''constructor'' 60000 ''Acme'') 0]"

definition unnamed_then_Y :: service_state where
  \<comment> \<open>An episode with the empty string as id is playing, then Y.\<close>
  "unnamed_then_Y =
     run (startPlaybackTracking idle_service 0 1)
         [playing_at 10000 (episode_item [] 60000 ''Acme'') 0,
          playing_at 20000 (episode_item ''Y'' 60000 ''Acme'') 0]"

section \<open>Lemmas about the properties of an object\<close>

lemma keys_insert_index: "fst ` set (insert_index n k v l) = insert k (fst ` set l)"
  by (induction l) (auto split: option.splits)

lemma set_insert_index: "set (insert_index n k v l) = insert (k, v) (set l)"
  by (induction l) (auto split: option.splits)

lemma distinct_insert_index:
  "distinct (map fst l) \<Longrightarrow> k \<notin> fst ` set l \<Longrightarrow> distinct (map fst (insert_index n k v l))"
proof (induction l)
  case Nil
  then show ?case by simp
next
  case (Cons p ps)
  then have "fst p \<notin> fst ` set (insert_index n k v ps)"
    by (auto simp: keys_insert_index)
  with Cons show ?case by (auto split: option.splits)
qed

lemma map_of_insert_index:
  "map_of l k = None \<Longrightarrow> map_of (insert_index n k v l) = (map_of l)(k \<mapsto> v)"
proof (induction l)
  case Nil
  then show ?case by simp
next
  case (Cons p ps)
  then have "fst p \<noteq> k" and "map_of ps k = None" by (auto split: if_splits)
  with Cons.IH show ?case by (auto simp: fun_eq_iff split: option.splits)
qed

lemma map_of_set_property: "map_of (set_property k v l) = (map_of l)(k \<mapsto> v)"
proof (cases "map_of l k")
  case None
  then show ?thesis
    by (auto simp: set_property_def map_of_insert_index fun_eq_iff map_add_def
          split: option.splits)
next
  case (Some old)
  then show ?thesis by (simp add: set_property_def update_conv')
qed

lemma set_update_distinct:
  "distinct (map fst l) \<Longrightarrow>
   set (AList.update k v l) = insert (k, v) {p \<in> set l. fst p \<noteq> k}"
  by (induction l) (auto simp: rev_image_eqI)

lemma set_set_property:
  assumes "distinct (map fst l)"
  shows "set (set_property k v l) = insert (k, v) {p \<in> set l. fst p \<noteq> k}"
proof (cases "map_of l k")
  case None
  then have "\<And>p. p \<in> set l \<Longrightarrow> fst p \<noteq> k"
    by (auto simp: map_of_eq_None_iff)
  with None show ?thesis
    by (auto simp: set_property_def set_insert_index split: option.splits)
next
  case (Some old)
  with assms show ?thesis by (simp add: set_property_def set_update_distinct)
qed

lemma distinct_set_property:
  assumes "distinct (map fst l)"
  shows "distinct (map fst (set_property k v l))"
proof (cases "map_of l k")
  case None
  then have "k \<notin> fst ` set l" by (simp add: map_of_eq_None_iff)
  with assms None show ?thesis
    by (auto simp: set_property_def distinct_insert_index split: option.splits)
next
  case (Some old)
  with assms show ?thesis by (simp add: set_property_def distinct_update)
qed

lemma list_all_update_any:
  "list_all P l \<Longrightarrow> P (k, v) \<Longrightarrow> list_all P (AList.update k v l)"
  by (induction l) auto

lemma list_all_set_property_any:
  assumes "list_all P l" and "P (k, v)"
  shows "list_all P (set_property k v l)"
proof -
  have "list_all P (insert_index n k v l)" for n
    using assms by (simp add: list_all_iff set_insert_index)
  with assms show ?thesis
    by (simp add: set_property_def list_all_update_any split: option.splits)
qed

lemma list_all_set_property:
  assumes "distinct (map fst l)" and "P (k, v)"
      and "\<And>p. p \<in> set l \<Longrightarrow> fst p \<noteq> k \<Longrightarrow> Q p \<Longrightarrow> P p"
      and "list_all Q l"
  shows "list_all P (set_property k v l)"
  using assms by (auto simp: list_all_iff set_set_property)

lemma mset_set_property_new:
  "map_of l k = None \<Longrightarrow> mset (set_property k v l) = add_mset (k, v) (mset l)"
proof -
  have "mset (insert_index n k v l) = add_mset (k, v) (mset l)" for n
    by (induction l) (auto split: option.splits)
  then show "map_of l k = None \<Longrightarrow> mset (set_property k v l) = add_mset (k, v) (mset l)"
    by (simp add: set_property_def split: option.splits)
qed

section \<open>Lemmas about the ledger operations\<close>

lemma tick_cases:
  "tick st inp =
     (let elapsed = tick_now inp - lastPollTime st;
          st1 = st\<lparr> lastPollTime := tick_now inp \<rparr>
      in case playing_episode inp of
           Some (item, p) \<Rightarrow>
             (storeEpisode
                (close_previous st1 (item_id item) elapsed (close_clock inp) (close_write_ok inp))
                item p elapsed (store_clock inp) (store_write_ok inp))
               \<lparr> lastEpisodeId := Some (item_id item) \<rparr>
         | None \<Rightarrow>
             if paused_episode inp then st1
             else end_active st1 elapsed (close_clock inp) (close_write_ok inp))"
  by (simp add: tick_def playing_episode_def paused_episode_def Let_def
           split: option.splits)

lemma ledger_of_simps [simp]:
  "ledger_of (st\<lparr> lastPollTime := t \<rparr>) = ledger_of st"
  "ledger_of (st\<lparr> lastEpisodeId := a \<rparr>) = ledger_of st"
  "ledger_of (st\<lparr> storage := Some l \<rparr>) = l"
  by (simp_all add: ledger_of_def)

lemma lookup_simps [simp]:
  "lookup (st\<lparr> lastPollTime := t \<rparr>) = lookup st"
  "lookup (st\<lparr> lastEpisodeId := a \<rparr>) = lookup st"
  by (simp_all add: lookup_def fun_eq_iff)

lemma inherited_only_simps [simp]:
  "inherited_only (st\<lparr> lastPollTime := t \<rparr>) = inherited_only st"
  "inherited_only (st\<lparr> lastEpisodeId := a \<rparr>) = inherited_only st"
  by (simp_all add: inherited_only_def fun_eq_iff)

lemma inherited_only_iff:
  "inherited_only st k \<longleftrightarrow> lookup st k = None \<and> k \<in> set object_prototype_names"
  by (simp add: inherited_only_def get_property_def lookup_def split: option.splits)

lemma close_if_open_id: "\<not> latest_open ep \<Longrightarrow> close_if_open ep t now = ep"
  by (auto simp: latest_open_def close_if_open_def split: option.splits)

lemma ledger_of_updateSessionEnd:
  "ledger_of (updateSessionEnd st e t now ok) =
     (case lookup st e of
        None \<Rightarrow> ledger_of st
      | Some ep \<Rightarrow> if latest_open ep \<and> ok
                   then set_property e (close_if_open ep t now) (ledger_of st)
                   else ledger_of st)"
  by (auto simp: updateSessionEnd_def updateSessionEnd_try_def setItem_def get_property_def
                 lookup_def ledger_of_def latest_open_def close_if_open_def
           split: option.splits)

lemma storage_updateSessionEnd_refused [simp]:
  "updateSessionEnd st e t now False = st"
  by (auto simp: updateSessionEnd_def updateSessionEnd_try_def setItem_def get_property_def
           split: option.splits)

lemma updateSessionEnd_not_open:
  assumes "case lookup st e of None \<Rightarrow> True | Some ep \<Rightarrow> \<not> latest_open ep"
  shows "updateSessionEnd st e t now ok = st"
proof (cases "storage st")
  case None
  then show ?thesis by (simp add: updateSessionEnd_def updateSessionEnd_try_def)
next
  case (Some l)
  show ?thesis
  proof (cases "map_of l e")
    case None
    with Some show ?thesis
      by (simp add: updateSessionEnd_def updateSessionEnd_try_def get_property_def)
  next
    case (Some ep)
    with \<open>storage st = Some l\<close> assms have "\<not> latest_open ep"
      by (simp add: lookup_def ledger_of_def)
    with Some \<open>storage st = Some l\<close> show ?thesis
      by (auto simp: updateSessionEnd_def updateSessionEnd_try_def get_property_def
            latest_open_def split: option.splits)
  qed
qed

lemma lookup_updateSessionEnd:
  "lookup (updateSessionEnd st e t now ok) k =
     (if k = e \<and> ok then map_option (\<lambda>ep. close_if_open ep t now) (lookup st e)
      else lookup st k)"
  unfolding lookup_def ledger_of_updateSessionEnd
  by (auto simp: lookup_def map_of_set_property close_if_open_id split: option.splits)

lemma ledger_of_storeEpisode:
  "ledger_of (storeEpisode st item p t now ok) =
     (if ok \<and> \<not> inherited_only st (item_id item)
      then set_property (item_id item)
             (case lookup st (item_id item) of
                None \<Rightarrow> new_episode item p t now
              | Some ex \<Rightarrow> update_existing ex item p t now) (ledger_of st)
      else ledger_of st)"
  by (auto simp: storeEpisode_def storeEpisode_try_def setItem_def get_property_def
                 inherited_only_def lookup_def ledger_of_def Let_def
           split: option.splits)

lemma storeEpisode_nothing_stored:
  "\<not> ok \<or> inherited_only st (item_id item) \<Longrightarrow> storeEpisode st item p t now ok = st"
  by (auto simp: storeEpisode_def storeEpisode_try_def setItem_def get_property_def
                 inherited_only_def ledger_of_def Let_def
           split: option.splits)

lemma lookup_storeEpisode:
  "lookup (storeEpisode st item p t now ok) k =
     (if k = item_id item \<and> ok \<and> \<not> inherited_only st k
      then Some (case lookup st k of
                   None \<Rightarrow> new_episode item p t now
                 | Some ex \<Rightarrow> update_existing ex item p t now)
      else lookup st k)"
  unfolding lookup_def ledger_of_storeEpisode
  by (auto simp: map_of_set_property lookup_def)

lemma other_fields_updateSessionEnd [simp]:
  "lastEpisodeId (updateSessionEnd st e t now ok) = lastEpisodeId st"
  "lastPollTime (updateSessionEnd st e t now ok) = lastPollTime st"
  "pollingInterval (updateSessionEnd st e t now ok) = pollingInterval st"
  "timers (updateSessionEnd st e t now ok) = timers st"
  by (simp_all add: updateSessionEnd_def updateSessionEnd_try_def setItem_def
        split: option.splits property.splits)

lemma other_fields_storeEpisode [simp]:
  "lastEpisodeId (storeEpisode st item p t now ok) = lastEpisodeId st"
  "lastPollTime (storeEpisode st item p t now ok) = lastPollTime st"
  "pollingInterval (storeEpisode st item p t now ok) = pollingInterval st"
  "timers (storeEpisode st item p t now ok) = timers st"
  by (simp_all add: storeEpisode_def storeEpisode_try_def setItem_def Let_def
        split: option.splits property.splits)

lemma lookup_close_previous:
  "lookup (close_previous st i t now ok) k =
     (if lastEpisodeId st = Some k \<and> k \<noteq> [] \<and> k \<noteq> i \<and> ok
      then map_option (\<lambda>ep. close_if_open ep t now) (lookup st k) else lookup st k)"
  by (auto simp: close_previous_def lookup_updateSessionEnd split: option.splits)

lemma lookup_end_active:
  "lookup (end_active st t now ok) k =
     (if lastEpisodeId st = Some k \<and> k \<noteq> [] \<and> ok
      then map_option (\<lambda>ep. close_if_open ep t now) (lookup st k) else lookup st k)"
  by (auto simp: end_active_def lookup_updateSessionEnd split: option.splits)

lemma other_fields_close_previous [simp]:
  "lastEpisodeId (close_previous st i t now ok) = lastEpisodeId st"
  "lastPollTime (close_previous st i t now ok) = lastPollTime st"
  "pollingInterval (close_previous st i t now ok) = pollingInterval st"
  by (simp_all add: close_previous_def split: option.splits)

lemma lookup_close_previous_item [simp]: "lookup (close_previous st i t now ok) i = lookup st i"
  by (simp add: lookup_close_previous)

lemma inherited_only_close_previous_item [simp]:
  "inherited_only (close_previous st i t now ok) i = inherited_only st i"
  by (simp add: inherited_only_iff)

lemma metadata_close_if_open [simp]: "metadata (close_if_open ep t now) = metadata ep"
  by (simp add: metadata_def close_if_open_def close_session_def split: option.splits)

lemma metadata_update_existing [simp]: "metadata (update_existing ex item p t now) = metadata ex"
  by (simp add: metadata_def update_existing_def Let_def split: option.splits)

lemma tick_keeps_metadata:
  assumes "lookup st k = Some r"
  shows "\<exists>r'. lookup (tick st inp) k = Some r' \<and> metadata r' = metadata r"
  using assms
  by (auto simp: tick_cases Let_def lookup_storeEpisode lookup_close_previous lookup_end_active
           split: option.splits)

section \<open>Open sessions during a tracking run\<close>

lemma open_count_entry:
  assumes "list_all (\<lambda>s. ended_at s \<noteq> None) (butlast ss)"
  shows "length (filter (\<lambda>s. ended_at s = None) ss)
         = (if ss \<noteq> [] \<and> ended_at (last ss) = None then 1 else 0)"
proof (cases "ss = []")
  case True
  then show ?thesis by simp
next
  case False
  then have split: "ss = butlast ss @ [last ss]" by simp
  from assms have "filter (\<lambda>s. ended_at s = None) (butlast ss) = []"
    by (auto simp: list_all_iff filter_empty_conv)
  then have "filter (\<lambda>s. ended_at s = None) ss = filter (\<lambda>s. ended_at s = None) [last ss]"
    by (subst split) (simp only: filter_append, simp)
  with False show ?thesis by simp
qed

lemma latest_open_iff: "latest_open e \<longleftrightarrow> sessions e \<noteq> [] \<and> ended_at (last (sessions e)) = None"
  by (simp add: latest_open_def last_session_def)

lemma open_sessions_Cons:
  "open_sessions ((k, e) # l) = length (filter (\<lambda>s. ended_at s = None) (sessions e)) + open_sessions l"
  by (simp add: open_sessions_def)

lemma open_sessions_bound:
  assumes "distinct (map fst l)" and "list_all (tracked_entry a) l"
  shows "open_sessions l \<le> (if \<exists>k \<in> fst ` set l. a = Some k then 1 else 0)"
  using assms
proof (induction l)
  case Nil
  then show ?case by (simp add: open_sessions_def)
next
  case (Cons p l)
  obtain k e where p: "p = (k, e)" by (cases p)
  from Cons.prems p have entry: "tracked_entry a (k, e)" and rest: "list_all (tracked_entry a) l"
    and fresh: "k \<notin> fst ` set l" and dist: "distinct (map fst l)"
    by auto
  have count: "length (filter (\<lambda>s. ended_at s = None) (sessions e)) = (if latest_open e then 1 else 0)"
    using entry by (simp add: tracked_entry_def open_count_entry latest_open_iff)
  have IH: "open_sessions l \<le> (if \<exists>k \<in> fst ` set l. a = Some k then 1 else 0)"
    using Cons.IH [OF dist rest] .
  show ?case
  proof (cases "latest_open e")
    case True
    with entry have a: "a = Some k" by (simp add: tracked_entry_def)
    with fresh IH have "open_sessions l = 0" by auto
    with count True p a show ?thesis by (simp add: open_sessions_Cons)
  next
    case False
    with count IH p show ?thesis by (auto simp: open_sessions_Cons split: if_splits)
  qed
qed

lemma well_tracked_open_sessions:
  assumes "well_tracked a l"
  shows "open_sessions l \<le> 1" and "a = None \<Longrightarrow> open_sessions l = 0"
proof -
  from assms have "distinct (map fst l)" and "list_all (tracked_entry a) l"
    by (simp_all add: well_tracked_def)
  then have b: "open_sessions l \<le> (if \<exists>k \<in> fst ` set l. a = Some k then 1 else 0)"
    by (rule open_sessions_bound)
  then show "open_sessions l \<le> 1" by (simp split: if_splits)
  from b show "a = None \<Longrightarrow> open_sessions l = 0" by simp
qed

lemma tracked_close_if_open:
  assumes "tracked_entry a (k, e)"
  shows "tracked_entry b (k, close_if_open e t now)"
  using assms
  by (auto simp: tracked_entry_def close_if_open_def close_session_def set_last_def
        latest_open_def last_session_def split: option.splits)

lemma tracked_other:
  assumes "tracked_entry a p" and "a = None \<or> a = Some k" and "fst p \<noteq> k"
  shows "tracked_entry b p"
  using assms by (auto simp: tracked_entry_def)

lemma list_all_butlast_last:
  assumes "list_all P (butlast ss)" and "ss \<noteq> []" and "P (last ss)"
  shows "list_all P ss"
proof -
  from assms(2) have "ss = butlast ss @ [last ss]" by simp
  then have "list_all P ss = list_all P (butlast ss @ [last ss])" by simp
  with assms(1,3) show ?thesis by simp
qed

lemma tracked_new_episode: "tracked_entry (Some (item_id item)) (item_id item, new_episode item p t now)"
  by (simp add: tracked_entry_def new_episode_def)

lemma tracked_update_existing:
  assumes "tracked_entry a (k, ex)"
  shows "tracked_entry (Some k) (k, update_existing ex item p t now)"
proof -
  from assms have closed: "list_all (\<lambda>s. ended_at s \<noteq> None) (butlast (sessions ex))"
    by (simp add: tracked_entry_def)
  show ?thesis
  proof (cases "latest_open ex")
    case True
    with closed show ?thesis
      by (auto simp: tracked_entry_def update_existing_def Let_def set_last_def
            last_session_def latest_open_def split: option.splits)
  next
    case False
    have "list_all (\<lambda>s. ended_at s \<noteq> None) (sessions ex)"
    proof (cases "sessions ex = []")
      case True
      then show ?thesis by simp
    next
      case ne: False
      with False have "ended_at (last (sessions ex)) \<noteq> None"
        by (simp add: latest_open_iff)
      with closed ne show ?thesis by (rule list_all_butlast_last)
    qed
    with False show ?thesis
      by (auto simp: tracked_entry_def update_existing_def Let_def last_session_def
            latest_open_def split: option.splits)
  qed
qed

lemma named_item_playing: "named_item inp \<Longrightarrow> playing_episode inp = Some (item, p) \<Longrightarrow> item_id item \<noteq> []"
  by (simp add: named_item_def)

lemma well_tracked_weaken:
  assumes "well_tracked a l" and "a = None \<or> a = Some k" and "k \<noteq> []"
  shows "well_tracked (Some k) l"
  using assms by (auto simp: well_tracked_def tracked_entry_def list_all_iff)

lemma well_tracked_updateSessionEnd:
  assumes "well_tracked (Some k) (ledger_of st)"
  shows "well_tracked None (ledger_of (updateSessionEnd st k t now True))"
proof -
  from assms have dist: "distinct (map fst (ledger_of st))"
    and all: "list_all (tracked_entry (Some k)) (ledger_of st)"
    by (simp_all add: well_tracked_def)
  have others: "\<And>p. p \<in> set (ledger_of st) \<Longrightarrow> fst p \<noteq> k \<Longrightarrow> tracked_entry (Some k) p
                  \<Longrightarrow> tracked_entry None p"
    by (rule tracked_other) auto
  show ?thesis
  proof (cases "lookup st k")
    case None
    then have "ledger_of (updateSessionEnd st k t now True) = ledger_of st"
      by (simp add: ledger_of_updateSessionEnd)
    moreover from None have "\<And>p. p \<in> set (ledger_of st) \<Longrightarrow> fst p \<noteq> k"
      by (auto simp: lookup_def map_of_eq_None_iff)
    ultimately show ?thesis using dist all others
      by (auto simp: well_tracked_def list_all_iff)
  next
    case (Some e)
    with dist have mem: "(k, e) \<in> set (ledger_of st)" by (simp add: lookup_def)
    with all have te: "tracked_entry (Some k) (k, e)" by (auto simp: list_all_iff)
    have closed: "tracked_entry None (k, close_if_open e t now)"
      using te by (rule tracked_close_if_open)
    show ?thesis
    proof (cases "latest_open e")
      case True
      with Some have upd: "ledger_of (updateSessionEnd st k t now True)
                             = set_property k (close_if_open e t now) (ledger_of st)"
        by (simp add: ledger_of_updateSessionEnd)
      have "list_all (tracked_entry None) (set_property k (close_if_open e t now) (ledger_of st))"
        using dist closed others all by (rule list_all_set_property)
      with dist upd show ?thesis by (simp add: well_tracked_def distinct_set_property)
    next
      case False
      with Some have same: "ledger_of (updateSessionEnd st k t now True) = ledger_of st"
        by (simp add: ledger_of_updateSessionEnd)
      from False te have here: "tracked_entry None (k, e)" by (simp add: tracked_entry_def)
      have "tracked_entry None q" if q: "q \<in> set (ledger_of st)" for q
      proof (cases "fst q = k")
        case True
        with dist q have "map_of (ledger_of st) k = Some (snd q)" by (cases q) simp
        with Some True have "q = (k, e)" by (cases q) (simp add: lookup_def)
        with here show ?thesis by simp
      next
        case False
        with others q all show ?thesis by (auto simp: list_all_iff)
      qed
      then have "list_all (tracked_entry None) (ledger_of st)" by (simp add: list_all_iff)
      with dist same show ?thesis by (simp add: well_tracked_def)
    qed
  qed
qed

lemma well_tracked_end_active:
  assumes "well_tracked (lastEpisodeId st) (ledger_of st)"
  shows "well_tracked None (ledger_of (end_active st t now True))"
    and "lastEpisodeId (end_active st t now ok) = None"
proof -
  show "well_tracked None (ledger_of (end_active st t now True))"
  proof (cases "lastEpisodeId st")
    case None
    with assms show ?thesis by (simp add: end_active_def)
  next
    case (Some k)
    with assms have "k \<noteq> []" by (auto simp: well_tracked_def)
    with Some assms show ?thesis
      by (simp add: end_active_def well_tracked_updateSessionEnd)
  qed
  from assms show "lastEpisodeId (end_active st t now ok) = None"
    by (auto simp: end_active_def well_tracked_def split: option.splits)
qed

lemma well_tracked_close_previous:
  assumes "well_tracked (lastEpisodeId st) (ledger_of st)"
  shows "well_tracked (if lastEpisodeId st = Some i then Some i else None)
           (ledger_of (close_previous st i t now True))"
proof (cases "lastEpisodeId st")
  case None
  with assms show ?thesis by (simp add: close_previous_def)
next
  case (Some k)
  with assms have "k \<noteq> []" by (auto simp: well_tracked_def)
  with Some assms show ?thesis
    by (auto simp: close_previous_def well_tracked_updateSessionEnd)
qed

lemma well_tracked_storeEpisode:
  assumes "well_tracked a (ledger_of st)" and "a = None \<or> a = Some (item_id item)"
      and "item_id item \<noteq> []"
  shows "well_tracked (Some (item_id item)) (ledger_of (storeEpisode st item p t now ok))"
proof (cases "ok \<and> \<not> inherited_only st (item_id item)")
  case False
  then have "ledger_of (storeEpisode st item p t now ok) = ledger_of st"
    by (auto simp: ledger_of_storeEpisode)
  with assms show ?thesis by (simp add: well_tracked_weaken)
next
  case True
  let ?k = "item_id item"
  let ?v = "case lookup st ?k of None \<Rightarrow> new_episode item p t now
            | Some ex \<Rightarrow> update_existing ex item p t now"
  from assms have dist: "distinct (map fst (ledger_of st))"
    and all: "list_all (tracked_entry a) (ledger_of st)"
    by (simp_all add: well_tracked_def)
  have others: "\<And>q. q \<in> set (ledger_of st) \<Longrightarrow> fst q \<noteq> ?k \<Longrightarrow> tracked_entry a q
                  \<Longrightarrow> tracked_entry (Some ?k) q"
    using assms(2) by (rule tracked_other [rotated])
  have new: "tracked_entry (Some ?k) (?k, ?v)"
  proof (cases "lookup st ?k")
    case None
    then show ?thesis by (simp add: tracked_new_episode)
  next
    case (Some ex)
    with dist have "(?k, ex) \<in> set (ledger_of st)" by (simp add: lookup_def)
    with all have "tracked_entry a (?k, ex)" by (auto simp: list_all_iff)
    with Some show ?thesis by (simp add: tracked_update_existing)
  qed
  have "list_all (tracked_entry (Some ?k)) (set_property ?k ?v (ledger_of st))"
    using dist new others all by (rule list_all_set_property)
  with dist assms(3) True show ?thesis
    by (simp add: well_tracked_def ledger_of_storeEpisode distinct_set_property)
qed

lemma well_tracked_tick:
  assumes "well_tracked (lastEpisodeId st) (ledger_of st)" and "named_item inp"
      and "close_write_ok inp"
  shows "well_tracked (lastEpisodeId (tick st inp)) (ledger_of (tick st inp))"
proof (cases "playing_episode inp")
  case None
  let ?st1 = "st\<lparr> lastPollTime := tick_now inp \<rparr>"
  from assms(1) have "well_tracked (lastEpisodeId ?st1) (ledger_of ?st1)" by simp
  from well_tracked_end_active [OF this] None assms(1,3) show ?thesis
    by (simp add: tick_cases Let_def)
next
  case (Some ip)
  obtain item p where ip: "ip = (item, p)" by (cases ip)
  let ?st1 = "st\<lparr> lastPollTime := tick_now inp \<rparr>"
  let ?t = "tick_now inp - lastPollTime st"
  let ?st2 = "close_previous ?st1 (item_id item) ?t (close_clock inp) True"
  from assms(1) have "well_tracked (lastEpisodeId ?st1) (ledger_of ?st1)" by simp
  from well_tracked_close_previous [OF this, of "item_id item" ?t "close_clock inp"]
  have wt2: "well_tracked (if lastEpisodeId st = Some (item_id item) then Some (item_id item) else None)
               (ledger_of ?st2)" by simp
  from assms(2) Some ip have ne: "item_id item \<noteq> []" by (simp add: named_item_playing)
  have "well_tracked (Some (item_id item))
          (ledger_of (storeEpisode ?st2 item p ?t (store_clock inp) (store_write_ok inp)))"
    by (rule well_tracked_storeEpisode [OF wt2 _ ne]) simp
  with Some ip assms(3) show ?thesis by (simp add: tick_cases Let_def)
qed

lemma well_tracked_run:
  assumes "well_tracked (lastEpisodeId st) (ledger_of st)" and "list_all named_item inps"
      and "list_all close_write_ok inps"
  shows "well_tracked (lastEpisodeId (run st inps)) (ledger_of (run st inps))"
  using assms
proof (induction inps arbitrary: st)
  case Nil
  then show ?case by (simp add: run_def)
next
  case (Cons inp inps)
  from Cons.prems have "well_tracked (lastEpisodeId (tick st inp)) (ledger_of (tick st inp))"
    by (simp add: well_tracked_tick)
  from Cons.IH [OF this] Cons.prems(2,3) show ?case by (simp add: run_def)
qed

section \<open>Lemmas about one tick\<close>

lemma length_sessions_close_if_open [simp]:
  "length (sessions (close_if_open e t now)) = length (sessions e)"
  by (simp add: close_if_open_def close_session_def set_last_def last_session_def)

lemma tick_without_snapshot:
  assumes "getCurrentlyPlaying (tick_response inp) = None"
  shows "tick st inp = end_active (st\<lparr> lastPollTime := tick_now inp \<rparr>)
                         (tick_now inp - lastPollTime st) (close_clock inp) (close_write_ok inp)"
  using assms by (simp add: tick_def Let_def)

lemma lastPollTime_end_active [simp]: "lastPollTime (end_active st t now ok) = lastPollTime st"
  by (simp add: end_active_def split: option.splits)

lemma lastEpisodeId_end_active:
  "lastEpisodeId (end_active st t now ok)
     = (if truthy_id (lastEpisodeId st) then None else lastEpisodeId st)"
  by (simp add: end_active_def truthy_id_def split: option.splits)

lemma end_active_refused:
  "end_active st t now False
     = (if truthy_id (lastEpisodeId st) then st\<lparr> lastEpisodeId := None \<rparr> else st)"
  by (simp add: end_active_def truthy_id_def split: option.splits)

lemma or_num_zero [simp]: "or_num d 0 = d"
  by (simp add: or_num_def)

lemma close_if_open_open:
  "latest_open e \<Longrightarrow>
   close_if_open e t now
     = e\<lparr> sessions := butlast (sessions e) @ [(last (sessions e))\<lparr> ended_at := Some now \<rparr>],
          total_played_ms := min (total_played_ms e + t) (duration_ms e) \<rparr>"
  by (auto simp: close_if_open_def close_session_def set_last_def latest_open_def last_session_def
        split: option.splits if_splits)

lemma total_close_if_open:
  "total_played_ms (close_if_open e t now)
     = (if latest_open e then min (total_played_ms e + t) (duration_ms e)
        else total_played_ms e)"
  by (simp add: close_if_open_def close_session_def latest_open_def split: option.splits)

lemma total_update_existing:
  "total_played_ms (update_existing ex item p t now)
     = min (total_played_ms ex + t) (or_num (item_duration_ms item) (duration_ms ex))"
  by (simp add: update_existing_def Let_def split: option.splits)

lemma total_new_episode:
  "total_played_ms (new_episode item p t now) = min t (item_duration_ms item)"
  by (simp add: new_episode_def)

lemma lookup_tick:
  "lookup (tick st inp) k =
     (case playing_episode inp of
        None \<Rightarrow>
          if \<not> paused_episode inp \<and> lastEpisodeId st = Some k \<and> k \<noteq> [] \<and> close_write_ok inp
          then map_option (\<lambda>e. close_if_open e (tick_now inp - lastPollTime st) (close_clock inp))
                 (lookup st k)
          else lookup st k
      | Some (item, p) \<Rightarrow>
          if k = item_id item
          then if store_write_ok inp \<and> \<not> inherited_only st k
               then Some (case lookup st k of
                            None \<Rightarrow> new_episode item p (tick_now inp - lastPollTime st)
                                      (store_clock inp)
                          | Some ex \<Rightarrow> update_existing ex item p (tick_now inp - lastPollTime st)
                                        (store_clock inp))
               else lookup st k
          else if lastEpisodeId st = Some k \<and> k \<noteq> [] \<and> close_write_ok inp
          then map_option (\<lambda>e. close_if_open e (tick_now inp - lastPollTime st) (close_clock inp))
                 (lookup st k)
          else lookup st k)"
  by (auto simp: tick_cases Let_def lookup_storeEpisode lookup_close_previous lookup_end_active
           split: option.splits)

lemma lastEpisodeId_tick:
  "lastEpisodeId (tick st inp) =
     (case playing_episode inp of
        None \<Rightarrow> if \<not> paused_episode inp \<and> truthy_id (lastEpisodeId st) then None
                else lastEpisodeId st
      | Some (item, p) \<Rightarrow> Some (item_id item))"
  by (auto simp: tick_cases Let_def lastEpisodeId_end_active split: option.splits)

lemma sessions_close_if_open:
  "latest_open a \<Longrightarrow>
   sessions (close_if_open a t now) = butlast (sessions a) @ [(last (sessions a))\<lparr> ended_at := Some now \<rparr>]"
  by (auto simp: close_if_open_def close_session_def set_last_def latest_open_def last_session_def
        split: option.splits if_splits)

lemma sessions_update_existing_closed:
  "\<not> latest_open b \<Longrightarrow>
   sessions (update_existing b item p t now) = sessions b @ [new_session now p]"
  by (auto simp: update_existing_def Let_def latest_open_def new_session_def split: option.splits)

lemma latest_open_update_existing: "latest_open (update_existing b item p t now)"
  by (auto simp: update_existing_def Let_def latest_open_def last_session_def set_last_def
        split: option.splits)

lemma latest_open_new_episode: "latest_open (new_episode item p t now)"
  by (simp add: new_episode_def latest_open_def last_session_def)

lemma sessions_new_episode: "sessions (new_episode item p t now) = [new_session now p]"
  by (simp add: new_episode_def new_session_def)

lemma sorted_getStoredEpisodes:
  "sorted_wrt (\<lambda>a b. last_played_at b \<le> last_played_at a) (getStoredEpisodes st)"
proof (cases "storage st")
  case None
  then show ?thesis by (simp add: getStoredEpisodes_def)
next
  case (Some l)
  have "sorted (map (\<lambda>e. - last_played_at e) (sort_key (\<lambda>e. - last_played_at e) (map snd l)))"
    by (rule sorted_sort_key)
  then have "sorted_wrt (\<lambda>a b. - last_played_at a \<le> - last_played_at b)
               (sort_key (\<lambda>e. - last_played_at e) (map snd l))"
    by (simp add: sorted_map)
  with Some show ?thesis by (simp add: getStoredEpisodes_def)
qed

lemma mset_getStoredEpisodes: "mset (getStoredEpisodes st) = mset (map snd (ledger_of st))"
  by (simp add: getStoredEpisodes_def ledger_of_def split: option.splits)

lemma slice0_nonneg: "0 \<le> e \<Longrightarrow> slice0 xs e = take (nat e) xs"
  by (simp add: slice0_def Let_def min_def)

lemma sorted_wrt_take: "sorted_wrt P xs \<Longrightarrow> sorted_wrt P (take n xs)"
  by (metis append_take_drop_id sorted_wrt_append)

lemma lookup_bounded:
  assumes "bounded_totals (ledger_of st)" and "lookup st k = Some e"
  shows "total_played_ms e \<le> duration_ms e"
proof -
  from assms(2) have "(k, e) \<in> set (ledger_of st)" by (simp add: lookup_def map_of_SomeD)
  with assms(1) show ?thesis by (auto simp: bounded_totals_def list_all_iff)
qed

lemma duration_close_if_open [simp]: "duration_ms (close_if_open e t now) = duration_ms e"
  by (simp add: close_if_open_def close_session_def split: option.splits)

lemma duration_update_existing [simp]: "duration_ms (update_existing ex item p t now) = duration_ms ex"
  by (simp add: update_existing_def Let_def split: option.splits)

section \<open>Totals and durations\<close>

lemma bounded_updateSessionEnd:
  assumes "bounded_totals (ledger_of st)"
  shows "bounded_totals (ledger_of (updateSessionEnd st k t now ok))"
proof (cases "lookup st k")
  case None
  with assms show ?thesis by (simp add: ledger_of_updateSessionEnd)
next
  case (Some e)
  from lookup_bounded [OF assms Some]
  have "total_played_ms (close_if_open e t now) \<le> duration_ms (close_if_open e t now)"
    by (simp add: total_close_if_open)
  with assms Some show ?thesis
    by (simp add: ledger_of_updateSessionEnd bounded_totals_def list_all_set_property_any)
qed

lemma bounded_storeEpisode:
  assumes "bounded_totals (ledger_of st)"
      and "case lookup st (item_id item) of None \<Rightarrow> True
           | Some e \<Rightarrow> item_duration_ms item = 0 \<or> item_duration_ms item \<le> duration_ms e"
  shows "bounded_totals (ledger_of (storeEpisode st item p t now ok))"
proof (cases "lookup st (item_id item)")
  case None
  have "total_played_ms (new_episode item p t now) \<le> duration_ms (new_episode item p t now)"
    by (simp add: new_episode_def)
  with assms(1) None show ?thesis
    by (simp add: ledger_of_storeEpisode bounded_totals_def list_all_set_property_any)
next
  case (Some e)
  with assms(2) have "or_num (item_duration_ms item) (duration_ms e) \<le> duration_ms e"
    by (auto simp: or_num_def)
  then have "total_played_ms (update_existing e item p t now)
               \<le> duration_ms (update_existing e item p t now)"
    by (simp add: total_update_existing)
  with assms(1) Some show ?thesis
    by (simp add: ledger_of_storeEpisode bounded_totals_def list_all_set_property_any)
qed

lemma bounded_end_active:
  "bounded_totals (ledger_of st) \<Longrightarrow> bounded_totals (ledger_of (end_active st t now ok))"
  by (simp add: end_active_def bounded_updateSessionEnd split: option.splits)

lemma bounded_close_previous:
  "bounded_totals (ledger_of st) \<Longrightarrow> bounded_totals (ledger_of (close_previous st i t now ok))"
  by (simp add: close_previous_def bounded_updateSessionEnd split: option.splits)

lemma bounded_tick:
  assumes "bounded_totals (ledger_of st)" and "duration_agrees st inp"
  shows "bounded_totals (ledger_of (tick st inp))"
proof (cases "playing_episode inp")
  case None
  with assms(1) show ?thesis by (simp add: tick_cases Let_def bounded_end_active)
next
  case (Some ip)
  obtain item p where ip: "ip = (item, p)" by (cases ip)
  let ?st2 = "close_previous (st\<lparr> lastPollTime := tick_now inp \<rparr>) (item_id item)
                (tick_now inp - lastPollTime st) (close_clock inp) (close_write_ok inp)"
  from assms(1) have b2: "bounded_totals (ledger_of ?st2)" by (simp add: bounded_close_previous)
  from assms(2) Some ip
  have "case lookup ?st2 (item_id item) of None \<Rightarrow> True
        | Some e \<Rightarrow> item_duration_ms item = 0 \<or> item_duration_ms item \<le> duration_ms e"
    by (simp add: duration_agrees_def)
  from bounded_storeEpisode [OF b2 this] Some ip show ?thesis
    by (simp add: tick_cases Let_def)
qed

section \<open>Starting and stopping\<close>

lemma ledger_of_stop [simp]: "ledger_of (stopPlaybackTracking st) = ledger_of st"
  by (simp add: stopPlaybackTracking_def ledger_of_def split: option.splits)

lemma storage_stop: "storage (stopPlaybackTracking st) = storage st"
  by (simp add: stopPlaybackTracking_def split: option.splits)

lemma no_open_tracked:
  assumes "open_sessions l = 0"
  shows "list_all (tracked_entry None) l"
proof -
  have "\<And>k e. (k, e) \<in> set l \<Longrightarrow> filter (\<lambda>s. ended_at s = None) (sessions e) = []"
    using assms by (fastforce simp: open_sessions_def)
  then have closed: "\<And>k e s. (k, e) \<in> set l \<Longrightarrow> s \<in> set (sessions e) \<Longrightarrow> ended_at s \<noteq> None"
    by (simp add: filter_empty_conv)
  show ?thesis
    unfolding list_all_iff
  proof
    fix q assume q: "q \<in> set l"
    obtain k e where ke: "q = (k, e)" by (cases q)
    from closed q ke have all: "\<And>s. s \<in> set (sessions e) \<Longrightarrow> ended_at s \<noteq> None" by blast
    then have "list_all (\<lambda>s. ended_at s \<noteq> None) (butlast (sessions e))"
      by (auto simp: list_all_iff dest: in_set_butlastD)
    moreover have "\<not> latest_open e"
    proof
      assume "latest_open e"
      then have "sessions e \<noteq> []" and o: "ended_at (last (sessions e)) = None"
        by (simp_all add: latest_open_iff)
      then have "last (sessions e) \<in> set (sessions e)" by simp
      with all o show False by blast
    qed
    ultimately show "tracked_entry None q" by (simp add: tracked_entry_def ke)
  qed
qed

lemma well_tracked_start:
  assumes "\<not> truthy_handle (pollingInterval st0)" and "distinct (map fst (ledger_of st0))"
      and "open_sessions (ledger_of st0) = 0"
  shows "well_tracked (lastEpisodeId (startPlaybackTracking st0 t0 h))
           (ledger_of (startPlaybackTracking st0 t0 h))"
  using assms
  by (simp add: startPlaybackTracking_def well_tracked_def no_open_tracked ledger_of_def)

lemma run_snoc: "run st (inps @ [inp]) = tick (run st inps) inp"
  by (simp add: run_def)

lemma nothing_playing_resets:
  assumes "well_tracked (lastEpisodeId st) (ledger_of st)" and "nothing_playing inp"
  shows "lastEpisodeId (tick st inp) = None"
proof -
  from assms(1) have "lastEpisodeId st \<noteq> Some []" by (simp add: well_tracked_def)
  then have "\<not> truthy_id (lastEpisodeId st) \<Longrightarrow> lastEpisodeId st = None"
    by (cases "lastEpisodeId st") (simp_all add: truthy_id_def)
  with assms(2) show ?thesis
    by (auto simp: lastEpisodeId_tick nothing_playing_def)
qed

section \<open>The example states\<close>

lemmas model_defs = run_def tick_def getCurrentlyPlaying_def end_active_def close_previous_def
  updateSessionEnd_def updateSessionEnd_try_def storeEpisode_def storeEpisode_try_def
  setItem_def get_property_def set_property_def update_existing_def new_episode_def
  close_session_def last_session_def set_last_def or_num_def or_str_def or_list_def
  startPlaybackTracking_def stopPlaybackTracking_def truthy_handle_def Let_def

lemmas view_defs = lookup_def ledger_of_def total_of_def sessions_of_def duration_of_def

lemmas example_defs = idle_service_def episode_item_def snapshot_at_def playing_at_def
  paused_at_def close_refused_at_def

lemma array_index_no_digit [simp]: "digit_value c = None \<Longrightarrow> array_index (c # cs) = None"
  by (simp add: array_index_def)

lemma array_index_empty [simp]: "array_index [] = None"
  by (simp add: array_index_def)

lemma digit_value_letters [simp]:
  "digit_value CHR ''X'' = None" "digit_value CHR ''Y'' = None" "digit_value CHR ''Z'' = None"
  "digit_value CHR ''c'' = None"
  by (simp_all add: digit_value_def)

lemma example_ids_not_inherited [simp]:
  "''X'' \<notin> set object_prototype_names" "''Y'' \<notin> set object_prototype_names"
  "''Z'' \<notin> set object_prototype_names" "[] \<notin> set object_prototype_names"
  "''constructor'' \<in> set object_prototype_names"
  by (simp_all add: object_prototype_names_def)

lemma listening_X_eq:
  "listening_X = \<lparr> pollingInterval = Some 1, lastPollTime = 10000, lastEpisodeId = Some ''X'',
                   storage = Some [(''X'', record_X)], timers = [1] \<rparr>"
  by (simp add: listening_X_def record_X_def example_defs model_defs)

lemma record_X_fields:
  "sessions record_X = [new_session 10002 0]" "total_played_ms record_X = 10000"
  "duration_ms record_X = 60000" "latest_open record_X"
  "publisher (parent_show record_X) = ''Acme''"
  by (simp_all add: record_X_def new_episode_def new_session_def episode_item_def latest_open_def
        last_session_def or_num_def or_str_def)

lemma closed_record_X_eq:
  "closed_record_X = record_X\<lparr> sessions := [(new_session 10002 0)\<lparr> ended_at := Some 20001 \<rparr>],
                               total_played_ms := 20000 \<rparr>"
  by (simp add: closed_record_X_def close_if_open_open record_X_fields)

lemma sessions_closed_record_X:
  "sessions closed_record_X = [\<lparr> started_at = 10002, ended_at = Some 20001, session_progress_ms = 0 \<rparr>]"
  by (simp add: closed_record_X_eq new_session_def)

lemma stopped_X_eq:
  "stopped_X = \<lparr> pollingInterval = Some 1, lastPollTime = 20000, lastEpisodeId = None,
                 storage = Some [(''X'', closed_record_X)], timers = [1] \<rparr>"
  by (simp add: stopped_X_def closed_record_X_def close_if_open_def listening_X_eq record_X_def
        example_defs model_defs)

lemma restarted_on_Y_eq:
  "restarted_on_Y = \<lparr> pollingInterval = Some 2, lastPollTime = 40000, lastEpisodeId = Some ''Y'',
      storage = Some [(''X'', record_X),
                      (''Y'', new_episode (episode_item ''Y'' 60000 ''Acme'') 0 10000 40002)],
      timers = [2] \<rparr>"
  by (simp add: restarted_on_Y_def listening_X_eq record_X_def example_defs model_defs)

lemma switched_to_Y_eq:
  "switched_to_Y = \<lparr> pollingInterval = Some 1, lastPollTime = 20000, lastEpisodeId = Some ''Y'',
      storage = Some [(''X'', closed_record_X),
                      (''Y'', new_episode (episode_item ''Y'' 60000 ''Acme'') 0 10000 20002)],
      timers = [1] \<rparr>"
  by (simp add: switched_to_Y_def listening_X_eq closed_record_X_def close_if_open_def
        record_X_def example_defs model_defs)

lemma switched_to_constructor_eq:
  "switched_to_constructor
     = \<lparr> pollingInterval = Some 1, lastPollTime = 20000, lastEpisodeId = Some ''constructor'',
         storage = Some [(''X'', closed_record_X)], timers = [1] \<rparr>"
  by (simp add: switched_to_constructor_def listening_X_eq closed_record_X_def close_if_open_def
        record_X_def example_defs model_defs)

lemma unnamed_then_Y_eq:
  "unnamed_then_Y
     = \<lparr> pollingInterval = Some 1, lastPollTime = 20000, lastEpisodeId = Some ''Y'',
         storage = Some [([], new_episode (episode_item [] 60000 ''Acme'') 0 10000 10002),
                         (''Y'', new_episode (episode_item ''Y'' 60000 ''Acme'') 0 10000 20002)],
         timers = [1] \<rparr>"
  by (simp add: unnamed_then_Y_def example_defs model_defs)

lemma recent_of_switched_to_Y:
  "getStoredEpisodes switched_to_Y
     = [new_episode (episode_item ''Y'' 60000 ''Acme'') 0 10000 20002, closed_record_X]"
  by (simp add: getStoredEpisodes_def switched_to_Y_eq closed_record_X_eq record_X_def
        new_episode_def)

section \<open>The claims of the specification\<close>

subsection \<open>C1: a tick without a usable answer\<close>

text \<open>
  Claim C1, as amended. \<^verbatim>\<open>getCurrentlyPlaying\<close> returns \<^verbatim>\<open>null\<close> for a failed fetch and for an
  error status as it does for status 204, so a tick whose snapshot is unavailable runs
  exactly as a tick with an empty snapshot: \<^verbatim>\<open>lastPollTime\<close> advances to the time of the
  tick and no session is opened (every episode keeps its number of sessions). When no
  episode is active nothing else changes. When an episode is active, the active episode
  is reset to none and no other episode changes; if the latest session of the active
  episode is open and the store accepts the write, that session gets \<^verbatim>\<open>ended_at\<close> and the
  elapsed time is added to \<^verbatim>\<open>total_played_ms\<close>, clamped to the stored duration; if the
  write is refused, or there is no open session to close, the store stays as it was.
\<close>

theorem unavailable_tick_is_empty_tick:
  assumes "unavailable (tick_response inp)"
  shows "tick st inp = tick st (inp\<lparr> tick_response := NoContent \<rparr>)
       \<and> lastPollTime (tick st inp) = tick_now inp
       \<and> (\<forall>k. length (sessions_of (tick st inp) k) = length (sessions_of st k))
       \<and> (\<not> truthy_id (lastEpisodeId st) \<longrightarrow> tick st inp = st\<lparr> lastPollTime := tick_now inp \<rparr>)
       \<and> (truthy_id (lastEpisodeId st) \<longrightarrow>
            lastEpisodeId (tick st inp) = None
            \<and> (\<forall>k. lastEpisodeId st \<noteq> Some k \<longrightarrow> lookup (tick st inp) k = lookup st k))
       \<and> (\<forall>X e. lastEpisodeId st = Some X \<and> X \<noteq> [] \<and> lookup st X = Some e \<and> latest_open e
                 \<and> close_write_ok inp \<longrightarrow>
            lookup (tick st inp) X =
              Some (e\<lparr> sessions := butlast (sessions e) @
                                     [(last (sessions e))\<lparr> ended_at := Some (close_clock inp) \<rparr>],
                       total_played_ms := min (total_played_ms e + (tick_now inp - lastPollTime st))
                                              (duration_ms e) \<rparr>))
       \<and> (\<forall>X. lastEpisodeId st = Some X
                \<and> (\<not> close_write_ok inp
                    \<or> (case lookup st X of None \<Rightarrow> True | Some e \<Rightarrow> \<not> latest_open e)) \<longrightarrow>
            storage (tick st inp) = storage st)"
proof -
  from assms have none: "getCurrentlyPlaying (tick_response inp) = None"
    by (auto simp: unavailable_def getCurrentlyPlaying_def)
  have none': "getCurrentlyPlaying (tick_response (inp\<lparr> tick_response := NoContent \<rparr>)) = None"
    by (simp add: getCurrentlyPlaying_def)
  note t = tick_without_snapshot [OF none]
  have 1: "tick st inp = tick st (inp\<lparr> tick_response := NoContent \<rparr>)"
    by (simp add: t tick_without_snapshot [OF none'])
  have 2: "lastPollTime (tick st inp) = tick_now inp" by (simp add: t)
  have 3: "\<forall>k. length (sessions_of (tick st inp) k) = length (sessions_of st k)"
    by (auto simp: t sessions_of_def lookup_end_active split: option.splits)
  have 4: "\<not> truthy_id (lastEpisodeId st) \<longrightarrow> tick st inp = st\<lparr> lastPollTime := tick_now inp \<rparr>"
    by (auto simp: t truthy_id_def end_active_def split: option.splits)
  have 5: "truthy_id (lastEpisodeId st) \<longrightarrow>
            lastEpisodeId (tick st inp) = None
            \<and> (\<forall>k. lastEpisodeId st \<noteq> Some k \<longrightarrow> lookup (tick st inp) k = lookup st k)"
    by (auto simp: t lookup_end_active lastEpisodeId_end_active)
  have 6: "\<forall>X e. lastEpisodeId st = Some X \<and> X \<noteq> [] \<and> lookup st X = Some e \<and> latest_open e
                 \<and> close_write_ok inp \<longrightarrow>
            lookup (tick st inp) X =
              Some (e\<lparr> sessions := butlast (sessions e) @
                                     [(last (sessions e))\<lparr> ended_at := Some (close_clock inp) \<rparr>],
                       total_played_ms := min (total_played_ms e + (tick_now inp - lastPollTime st))
                                              (duration_ms e) \<rparr>)"
    by (simp add: t lookup_end_active close_if_open_open)
  have 7: "\<forall>X. lastEpisodeId st = Some X
                \<and> (\<not> close_write_ok inp
                    \<or> (case lookup st X of None \<Rightarrow> True | Some e \<Rightarrow> \<not> latest_open e)) \<longrightarrow>
            storage (tick st inp) = storage st"
  proof (intro allI impI)
    fix X
    assume a: "lastEpisodeId st = Some X
                \<and> (\<not> close_write_ok inp
                    \<or> (case lookup st X of None \<Rightarrow> True | Some e \<Rightarrow> \<not> latest_open e))"
    let ?st1 = "st\<lparr> lastPollTime := tick_now inp \<rparr>"
    from a have "updateSessionEnd ?st1 X (tick_now inp - lastPollTime st) (close_clock inp)
                   (close_write_ok inp) = ?st1"
    proof (cases "close_write_ok inp")
      case False
      then show ?thesis by simp
    next
      case True
      with a have "case lookup ?st1 X of None \<Rightarrow> True | Some e \<Rightarrow> \<not> latest_open e" by simp
      then show ?thesis by (rule updateSessionEnd_not_open)
    qed
    with a show "storage (tick st inp) = storage st"
      by (simp add: t end_active_def)
  qed
  from 1 2 3 4 5 6 7 show ?thesis by blast
qed

theorem unavailable_tick_is_empty_tick_witness:
  "unavailable (tick_response (snapshot_at 20000 FetchThrew))
   \<and> tick listening_X (snapshot_at 20000 FetchThrew) = tick listening_X (snapshot_at 20000 NoContent)
   \<and> lastPollTime (tick listening_X (snapshot_at 20000 FetchThrew)) = 20000
   \<and> truthy_id (lastEpisodeId listening_X)
   \<and> lastEpisodeId (tick listening_X (snapshot_at 20000 FetchThrew)) = None
   \<and> lookup listening_X ''X'' = Some record_X
   \<and> lookup (tick listening_X (snapshot_at 20000 FetchThrew)) ''X''
       = Some (record_X\<lparr> sessions := [(new_session 10002 0)\<lparr> ended_at := Some 20001 \<rparr>],
                          total_played_ms := 20000 \<rparr>)
   \<and> unavailable (tick_response (close_refused_at 20000 FetchThrew))
   \<and> storage (tick listening_X (close_refused_at 20000 FetchThrew)) = storage listening_X
   \<and> lastEpisodeId (tick listening_X (close_refused_at 20000 FetchThrew)) = None
   \<and> \<not> truthy_id (lastEpisodeId stopped_X)
   \<and> tick stopped_X (snapshot_at 30000 FetchThrew) = stopped_X\<lparr> lastPollTime := 30000 \<rparr>"
proof -
  let ?inp = "snapshot_at 20000 FetchThrew"
  let ?ref = "close_refused_at 20000 FetchThrew"
  have u: "unavailable (tick_response ?inp)" "unavailable (tick_response (snapshot_at 30000 FetchThrew))"
    "unavailable (tick_response ?ref)"
    by (simp_all add: unavailable_def snapshot_at_def close_refused_at_def)
  have a: "truthy_id (lastEpisodeId listening_X)" "\<not> truthy_id (lastEpisodeId stopped_X)"
    by (simp_all add: truthy_id_def listening_X_eq stopped_X_eq)
  have e: "?inp\<lparr> tick_response := NoContent \<rparr> = snapshot_at 20000 NoContent"
    "tick_now ?inp = 20000" "close_clock ?inp = 20001" "tick_now (snapshot_at 30000 FetchThrew) = 30000"
    "lastPollTime listening_X = 10000" "lastEpisodeId listening_X = Some ''X''"
    "close_write_ok ?inp" "\<not> close_write_ok ?ref"
    by (simp_all add: snapshot_at_def close_refused_at_def listening_X_eq)
  have lx: "lookup listening_X ''X'' = Some record_X"
    by (simp add: listening_X_eq lookup_def ledger_of_def)
  note w = unavailable_tick_is_empty_tick [OF u(1), of listening_X]
  from w have c1: "tick listening_X ?inp = tick listening_X (?inp\<lparr> tick_response := NoContent \<rparr>)"
    by (rule conjunct1)
  from w have c2: "lastPollTime (tick listening_X ?inp) = tick_now ?inp" by blast
  from w a(1) have c3: "lastEpisodeId (tick listening_X ?inp) = None" by blast
  from w have "lastEpisodeId listening_X = Some ''X'' \<and> ''X'' \<noteq> [] \<and> lookup listening_X ''X'' = Some record_X
        \<and> latest_open record_X \<and> close_write_ok ?inp \<longrightarrow>
      lookup (tick listening_X ?inp) ''X'' =
        Some (record_X\<lparr> sessions := butlast (sessions record_X) @
                                [(last (sessions record_X))\<lparr> ended_at := Some (close_clock ?inp) \<rparr>],
                 total_played_ms := min (total_played_ms record_X + (tick_now ?inp - lastPollTime listening_X))
                                        (duration_ms record_X) \<rparr>)" by blast
  then have c4: "lookup (tick listening_X ?inp) ''X''
       = Some (record_X\<lparr> sessions := [(new_session 10002 0)\<lparr> ended_at := Some 20001 \<rparr>],
                          total_played_ms := 20000 \<rparr>)"
    by (simp add: e lx record_X_fields)
  note r = unavailable_tick_is_empty_tick [OF u(3), of listening_X]
  from r e(6,8) have c6: "storage (tick listening_X ?ref) = storage listening_X" by blast
  from r a(1) have c7: "lastEpisodeId (tick listening_X ?ref) = None" by blast
  from unavailable_tick_is_empty_tick [OF u(2), of stopped_X] a(2)
  have "tick stopped_X (snapshot_at 30000 FetchThrew)
          = stopped_X\<lparr> lastPollTime := tick_now (snapshot_at 30000 FetchThrew) \<rparr>"
    by blast
  then have c5: "tick stopped_X (snapshot_at 30000 FetchThrew) = stopped_X\<lparr> lastPollTime := 30000 \<rparr>"
    by (simp add: e)
  from c1 have c1': "tick listening_X ?inp = tick listening_X (snapshot_at 20000 NoContent)"
    by (simp only: e)
  from c2 have c2': "lastPollTime (tick listening_X ?inp) = 20000" by (simp only: e)
  from u(1,3) c1' c2' a c3 lx c4 c5 c6 c7 show ?thesis by blast
qed

text \<open>
  The claim as first stated (an unavailable tick attributes no time and closes no
  session) fails: X is playing with 10 s counted; the next poll, 10 s later, gets an error
  status; the session of X is closed and X has 20 s.
\<close>

theorem unavailable_tick_closes_active_session:
  "unavailable (tick_response (snapshot_at 20000 NotOk))
   \<and> lastEpisodeId listening_X = Some ''X''
   \<and> total_of listening_X ''X'' = Some 10000
   \<and> sessions_of listening_X ''X'' = [new_session 10002 0]
   \<and> total_of (tick listening_X (snapshot_at 20000 NotOk)) ''X'' = Some 20000
   \<and> sessions_of (tick listening_X (snapshot_at 20000 NotOk)) ''X''
       = [(new_session 10002 0)\<lparr> ended_at := Some 20001 \<rparr>]
   \<and> lastEpisodeId (tick listening_X (snapshot_at 20000 NotOk)) = None"
  by (simp add: listening_X_eq record_X_def unavailable_def new_session_def
        example_defs model_defs view_defs)

subsection \<open>C2: which episodes receive the elapsed time of a tick\<close>

text \<open>
  Claim C2, as amended. The elapsed time of a tick changes \<^verbatim>\<open>total_played_ms\<close> of at most
  one episode, except on a tick where the active episode is X and the snapshot reports
  another episode Y playing: there only X and Y can change, and each receives the whole
  elapsed time when its write is accepted. X receives it through \<^verbatim>\<open>updateSessionEnd\<close>
  when its latest session is open, clamped to the stored duration. Y receives it through
  \<^verbatim>\<open>storeEpisode\<close>, clamped to the duration of the snapshot (to the stored one when the
  snapshot has none), unless the id of Y is only an inherited property name of the
  ledger object: then nothing is stored for Y.
\<close>

theorem elapsed_time_attribution:
  "((\<forall>X item. \<not> switch_tick st inp X item) \<longrightarrow>
      (\<exists>x. \<forall>k. k \<noteq> x \<longrightarrow> total_of (tick st inp) k = total_of st k))
   \<and> (switch_tick st inp X item \<longrightarrow>
        (\<forall>k. k \<noteq> X \<and> k \<noteq> item_id item \<longrightarrow> total_of (tick st inp) k = total_of st k)
        \<and> total_of (tick st inp) X =
            map_option (\<lambda>e. if latest_open e \<and> close_write_ok inp
                             then min (total_played_ms e + (tick_now inp - lastPollTime st))
                                      (duration_ms e)
                             else total_played_ms e) (lookup st X)
        \<and> total_of (tick st inp) (item_id item) =
            (if store_write_ok inp \<and> \<not> inherited_only st (item_id item)
             then Some (case lookup st (item_id item) of
                          None \<Rightarrow> min (tick_now inp - lastPollTime st) (item_duration_ms item)
                        | Some e \<Rightarrow> min (total_played_ms e + (tick_now inp - lastPollTime st))
                                        (or_num (item_duration_ms item) (duration_ms e)))
             else total_of st (item_id item)))"
proof (intro conjI impI)
  assume ns: "\<forall>X item. \<not> switch_tick st inp X item"
  show "\<exists>x. \<forall>k. k \<noteq> x \<longrightarrow> total_of (tick st inp) k = total_of st k"
  proof (cases "playing_episode inp")
    case None
    note no_episode = this
    show ?thesis
    proof (cases "lastEpisodeId st")
      case None
      with no_episode show ?thesis by (simp add: total_of_def lookup_tick)
    next
      case (Some a)
      with no_episode have "\<forall>k. k \<noteq> a \<longrightarrow> total_of (tick st inp) k = total_of st k"
        by (simp add: total_of_def lookup_tick)
      then show ?thesis ..
    qed
  next
    case (Some ip)
    obtain item p where ip: "ip = (item, p)" by (cases ip)
    from ns Some ip have "\<And>X. lastEpisodeId st = Some X \<Longrightarrow> X \<noteq> [] \<Longrightarrow> X = item_id item"
      by (auto simp: switch_tick_def)
    with Some ip have "\<forall>k. k \<noteq> item_id item \<longrightarrow> total_of (tick st inp) k = total_of st k"
      by (auto simp: total_of_def lookup_tick)
    then show ?thesis ..
  qed
next
  assume sw: "switch_tick st inp X item"
  then obtain p where pe: "playing_episode inp = Some (item, p)"
    by (auto simp: switch_tick_def)
  from sw have act: "lastEpisodeId st = Some X" "X \<noteq> []" "X \<noteq> item_id item"
    by (simp_all add: switch_tick_def)
  show "\<forall>k. k \<noteq> X \<and> k \<noteq> item_id item \<longrightarrow> total_of (tick st inp) k = total_of st k"
    using pe act by (simp add: total_of_def lookup_tick)
  show "total_of (tick st inp) X =
            map_option (\<lambda>e. if latest_open e \<and> close_write_ok inp
                             then min (total_played_ms e + (tick_now inp - lastPollTime st))
                                      (duration_ms e)
                             else total_played_ms e) (lookup st X)"
    using pe act
    by (cases "lookup st X") (simp_all add: total_of_def lookup_tick total_close_if_open)
  show "total_of (tick st inp) (item_id item) =
            (if store_write_ok inp \<and> \<not> inherited_only st (item_id item)
             then Some (case lookup st (item_id item) of
                          None \<Rightarrow> min (tick_now inp - lastPollTime st) (item_duration_ms item)
                        | Some e \<Rightarrow> min (total_played_ms e + (tick_now inp - lastPollTime st))
                                        (or_num (item_duration_ms item) (duration_ms e)))
             else total_of st (item_id item))"
    using pe by (simp add: total_of_def lookup_tick total_update_existing total_new_episode
                      split: option.splits)
qed

theorem elapsed_time_attribution_witness:
  "switch_tick listening_X (playing_at 20000 (episode_item ''Y'' 60000 ''Acme'') 0) ''X''
     (episode_item ''Y'' 60000 ''Acme'')
   \<and> total_of (tick listening_X (playing_at 20000 (episode_item ''Y'' 60000 ''Acme'') 0)) ''X''
       = Some 20000
   \<and> total_of (tick listening_X (playing_at 20000 (episode_item ''Y'' 60000 ''Acme'') 0)) ''Y''
       = Some 10000
   \<and> total_of (tick listening_X (playing_at 20000 (episode_item ''Y'' 60000 ''Acme'') 0)) ''W''
       = total_of listening_X ''W''
   \<and> switch_tick listening_X (playing_at 20000 (episode_item ''constructor'' 60000 ''Acme'') 0)
        ''X'' (episode_item ''constructor'' 60000 ''Acme'')
   \<and> total_of (tick listening_X (playing_at 20000 (episode_item ''constructor'' 60000 ''Acme'') 0))
        ''constructor'' = None"
proof -
  let ?inp = "playing_at 20000 (episode_item ''Y'' 60000 ''Acme'') 0"
  let ?item = "episode_item ''Y'' 60000 ''Acme''"
  let ?inpc = "playing_at 20000 (episode_item ''constructor'' 60000 ''Acme'') 0"
  let ?itemc = "episode_item ''constructor'' 60000 ''Acme''"
  have sw: "switch_tick listening_X ?inp ''X'' ?item"
    and swc: "switch_tick listening_X ?inpc ''X'' ?itemc"
    by (simp_all add: switch_tick_def playing_episode_def getCurrentlyPlaying_def playing_at_def
          snapshot_at_def episode_item_def listening_X_eq or_num_def)
  have facts: "lookup listening_X ''X'' = Some record_X" "lookup listening_X ''Y'' = None"
    "lookup listening_X ''constructor'' = None"
    "tick_now ?inp - lastPollTime listening_X = 10000" "item_id ?item = ''Y''"
    "item_duration_ms ?item = 60000" "close_write_ok ?inp" "store_write_ok ?inp"
    "\<not> inherited_only listening_X ''Y''" "inherited_only listening_X ''constructor''"
    "item_id ?itemc = ''constructor''"
    by (simp_all add: listening_X_eq lookup_def ledger_of_def episode_item_def playing_at_def
          snapshot_at_def inherited_only_def get_property_def)
  from elapsed_time_attribution [of listening_X ?inp "''X''" ?item] sw
  have "(\<forall>k. k \<noteq> ''X'' \<and> k \<noteq> item_id ?item \<longrightarrow> total_of (tick listening_X ?inp) k = total_of listening_X k)
        \<and> total_of (tick listening_X ?inp) ''X'' = Some 20000
        \<and> total_of (tick listening_X ?inp) (item_id ?item) = Some 10000"
    by (simp add: facts record_X_fields)
  moreover from elapsed_time_attribution [of listening_X ?inpc "''X''" ?itemc] swc
  have "total_of (tick listening_X ?inpc) ''constructor'' = None"
    by (simp add: facts total_of_def)
  ultimately show ?thesis using sw swc facts(5) by simp
qed

text \<open>
  The claim as first stated (the interval is never attributed to both X and Y) fails: X
  is active with 10 s counted, 10 s later the snapshot reports Y playing; afterwards X has
  20 s and the new record of Y has 10 s.
\<close>

theorem switch_tick_counts_interval_twice:
  "lastEpisodeId listening_X = Some ''X''
   \<and> tick_now (playing_at 20000 (episode_item ''Y'' 60000 ''Acme'') 0) - lastPollTime listening_X
       = 10000
   \<and> total_of listening_X ''X'' = Some 10000
   \<and> total_of listening_X ''Y'' = None
   \<and> total_of (tick listening_X (playing_at 20000 (episode_item ''Y'' 60000 ''Acme'') 0)) ''X''
       = Some 20000
   \<and> total_of (tick listening_X (playing_at 20000 (episode_item ''Y'' 60000 ''Acme'') 0)) ''Y''
       = Some 10000"
  by (simp add: listening_X_eq record_X_def example_defs model_defs view_defs)

subsection \<open>C3: total played time and duration\<close>

text \<open>
  Claim C3, as amended. Let every episode of the ledger have
  \<^verbatim>\<open>total_played_ms \<le> duration_ms\<close>, and let every tick that reports a playing episode
  already in the ledger carry a duration that is 0 or at most the stored duration of that
  episode. Then \<^verbatim>\<open>total_played_ms \<le> duration_ms\<close> holds for every episode after the ticks.
  \<^verbatim>\<open>updateSessionEnd\<close> always clamps to the stored duration and a first recording clamps
  to the duration it stores (lemmas \<open>bounded_updateSessionEnd\<close>, \<open>bounded_storeEpisode\<close>);
  for an episode already recorded \<^verbatim>\<open>storeEpisode\<close> clamps to the duration of the snapshot.
\<close>

theorem totals_bounded_by_duration:
  assumes "bounded_totals (ledger_of st)" and "durations_agree st inps"
  shows "bounded_totals (ledger_of (run st inps))"
  using assms
proof (induction inps arbitrary: st)
  case Nil
  then show ?case by (simp add: run_def)
next
  case (Cons inp inps)
  from Cons.prems have "bounded_totals (ledger_of (tick st inp))"
    by (simp add: bounded_tick)
  from Cons.IH [OF this] Cons.prems(2) show ?case by (simp add: run_def)
qed

theorem totals_bounded_by_duration_witness:
  "bounded_totals (ledger_of (startPlaybackTracking idle_service 0 1))
   \<and> durations_agree (startPlaybackTracking idle_service 0 1)
        [playing_at 10000 (episode_item ''Z'' 5000 ''Acme'') 0,
         playing_at 20000 (episode_item ''Z'' 5000 ''Acme'') 10000]
   \<and> bounded_totals (ledger_of (run (startPlaybackTracking idle_service 0 1)
        [playing_at 10000 (episode_item ''Z'' 5000 ''Acme'') 0,
         playing_at 20000 (episode_item ''Z'' 5000 ''Acme'') 10000]))
   \<and> total_of (run (startPlaybackTracking idle_service 0 1)
        [playing_at 10000 (episode_item ''Z'' 5000 ''Acme'') 0,
         playing_at 20000 (episode_item ''Z'' 5000 ''Acme'') 10000]) ''Z'' = Some 5000"
proof -
  let ?st = "startPlaybackTracking idle_service 0 1"
  let ?inps = "[playing_at 10000 (episode_item ''Z'' 5000 ''Acme'') 0,
                playing_at 20000 (episode_item ''Z'' 5000 ''Acme'') 10000]"
  have b: "bounded_totals (ledger_of ?st)"
    by (simp add: bounded_totals_def ledger_of_def idle_service_def startPlaybackTracking_def
          truthy_handle_def)
  have d: "durations_agree ?st ?inps"
    by (simp add: duration_agrees_def playing_episode_def example_defs model_defs view_defs)
  have t: "total_of (run ?st ?inps) ''Z'' = Some 5000"
    by (simp add: example_defs model_defs view_defs)
  from totals_bounded_by_duration [OF b d] b d t show ?thesis by blast
qed

text \<open>
  The claim as first stated (for every sequence of ticks) fails: Z is first reported with
  a duration of 5 s and recorded with it; the next snapshot reports Z with a duration of
  60 s; the stored duration stays 5 s and the total becomes 15 s.
\<close>

theorem total_exceeds_stored_duration:
  "duration_of short_Z ''Z'' = Some 5000 \<and> total_of short_Z ''Z'' = Some 15000
   \<and> \<not> bounded_totals (ledger_of short_Z)"
  by (simp add: short_Z_def bounded_totals_def example_defs model_defs view_defs)

subsection \<open>C4: the number of open sessions\<close>

text \<open>
  Claim C4, as amended. Start tracking while no timer is stored, on a ledger with no open
  session; let the ids of the playing episodes be non-empty and let the store accept
  every write of \<^verbatim>\<open>updateSessionEnd\<close>. Then after every tick at most one session of the
  whole ledger has no \<^verbatim>\<open>ended_at\<close>; none has when no episode is active, in particular
  after a tick that found nothing playing (no snapshot, no item, or an item that is not
  an episode). \<^verbatim>\<open>stopPlaybackTracking\<close> does not write to the ledger: a session that is
  open when tracking stops stays open.
\<close>

theorem open_sessions_in_a_tracking_run:
  assumes "\<not> truthy_handle (pollingInterval st0)"
      and "distinct (map fst (ledger_of st0))"
      and "open_sessions (ledger_of st0) = 0"
      and "list_all named_item inps"
      and "list_all close_write_ok inps"
  shows "open_sessions (ledger_of (run (startPlaybackTracking st0 t0 h) inps)) \<le> 1
       \<and> (lastEpisodeId (run (startPlaybackTracking st0 t0 h) inps) = None \<longrightarrow>
            open_sessions (ledger_of (run (startPlaybackTracking st0 t0 h) inps)) = 0)
       \<and> (inps \<noteq> [] \<and> nothing_playing (last inps) \<longrightarrow>
            open_sessions (ledger_of (run (startPlaybackTracking st0 t0 h) inps)) = 0)
       \<and> storage (stopPlaybackTracking (run (startPlaybackTracking st0 t0 h) inps))
           = storage (run (startPlaybackTracking st0 t0 h) inps)"
proof -
  let ?s = "startPlaybackTracking st0 t0 h"
  have start: "well_tracked (lastEpisodeId ?s) (ledger_of ?s)"
    using assms(1-3) by (rule well_tracked_start)
  have wt: "well_tracked (lastEpisodeId (run ?s inps)) (ledger_of (run ?s inps))"
    using start assms(4,5) by (rule well_tracked_run)
  have 1: "open_sessions (ledger_of (run ?s inps)) \<le> 1"
    using wt by (rule well_tracked_open_sessions(1))
  have 2: "lastEpisodeId (run ?s inps) = None \<longrightarrow> open_sessions (ledger_of (run ?s inps)) = 0"
    using well_tracked_open_sessions(2) [OF wt] by blast
  have 3: "inps \<noteq> [] \<and> nothing_playing (last inps) \<longrightarrow>
            open_sessions (ledger_of (run ?s inps)) = 0"
  proof
    assume a: "inps \<noteq> [] \<and> nothing_playing (last inps)"
    then have split: "inps = butlast inps @ [last inps]" by simp
    from assms(4,5) have "list_all named_item (butlast inps)"
      and "list_all close_write_ok (butlast inps)"
      by (auto simp: list_all_iff dest: in_set_butlastD)
    with start have "well_tracked (lastEpisodeId (run ?s (butlast inps)))
                       (ledger_of (run ?s (butlast inps)))"
      by (rule well_tracked_run)
    from nothing_playing_resets [OF this] a
    have "lastEpisodeId (tick (run ?s (butlast inps)) (last inps)) = None" by blast
    then have "lastEpisodeId (run ?s (butlast inps @ [last inps])) = None"
      by (simp only: run_snoc)
    with split have "lastEpisodeId (run ?s inps) = None" by simp
    with 2 show "open_sessions (ledger_of (run ?s inps)) = 0" by blast
  qed
  from 1 2 3 storage_stop show ?thesis by blast
qed

theorem open_sessions_in_a_tracking_run_witness:
  "\<not> truthy_handle (pollingInterval idle_service)
   \<and> distinct (map fst (ledger_of idle_service))
   \<and> open_sessions (ledger_of idle_service) = 0
   \<and> list_all named_item [playing_at 10000 (episode_item ''X'' 60000 ''Acme'') 0,
                           snapshot_at 20000 NoContent]
   \<and> list_all close_write_ok [playing_at 10000 (episode_item ''X'' 60000 ''Acme'') 0,
                               snapshot_at 20000 NoContent]
   \<and> nothing_playing (snapshot_at 20000 NoContent)
   \<and> open_sessions (ledger_of listening_X) \<le> 1
   \<and> open_sessions (ledger_of stopped_X) = 0
   \<and> storage (stopPlaybackTracking listening_X) = storage listening_X"
proof -
  let ?a = "playing_at 10000 (episode_item ''X'' 60000 ''Acme'') 0"
  let ?b = "snapshot_at 20000 NoContent"
  have h: "\<not> truthy_handle (pollingInterval idle_service)"
    "distinct (map fst (ledger_of idle_service))"
    "open_sessions (ledger_of idle_service) = 0"
    by (simp_all add: idle_service_def truthy_handle_def ledger_of_def open_sessions_def)
  have n: "list_all named_item [?a, ?b]" "list_all named_item [?a]" "nothing_playing ?b"
    by (simp_all add: named_item_def nothing_playing_def playing_episode_def paused_episode_def
          getCurrentlyPlaying_def playing_at_def snapshot_at_def episode_item_def)
  have c: "list_all close_write_ok [?a, ?b]" "list_all close_write_ok [?a]"
    by (simp_all add: playing_at_def snapshot_at_def)
  have r: "run (startPlaybackTracking idle_service 0 1) [?a, ?b] = stopped_X"
    by (simp add: stopped_X_def listening_X_def run_def)
  have r': "run (startPlaybackTracking idle_service 0 1) [?a] = listening_X"
    by (simp add: listening_X_def)
  note w = open_sessions_in_a_tracking_run [OF h n(1) c(1), of 0 1, unfolded r]
  have "[?a, ?b] \<noteq> [] \<and> nothing_playing (last [?a, ?b])" using n(3) by simp
  with w have s: "open_sessions (ledger_of stopped_X) = 0" by blast
  note w' = open_sessions_in_a_tracking_run [OF h n(2) c(2), of 0 1, unfolded r']
  from w' have l: "open_sessions (ledger_of listening_X) \<le> 1"
    "storage (stopPlaybackTracking listening_X) = storage listening_X"
    by blast+
  from h n(1,3) c(1) s l show ?thesis by blast
qed

text \<open>
  The claim as first stated (no open session once tracking is stopped or nothing is
  playing, at most one while tracking is active) fails in four ways. Stopping while X
  plays leaves the session of X open with no timer running. After a new start, a tick
  that reports Y playing opens a second session. When the store refuses the write that
  closes the session of X on an empty snapshot, the session stays open although no episode
  is active. After an episode whose id is the empty string, the next episode opens a
  second session.
\<close>

theorem stop_leaves_session_open:
  "pollingInterval (stopPlaybackTracking listening_X) = None
   \<and> timers (stopPlaybackTracking listening_X) = []
   \<and> open_sessions (ledger_of (stopPlaybackTracking listening_X)) = 1
   \<and> truthy_handle (pollingInterval restarted_on_Y)
   \<and> open_sessions (ledger_of restarted_on_Y) = 2
   \<and> nothing_playing (close_refused_at 20000 NoContent)
   \<and> lastEpisodeId (tick listening_X (close_refused_at 20000 NoContent)) = None
   \<and> open_sessions (ledger_of (tick listening_X (close_refused_at 20000 NoContent))) = 1
   \<and> truthy_handle (pollingInterval unnamed_then_Y)
   \<and> open_sessions (ledger_of unnamed_then_Y) = 2"
  by (simp add: restarted_on_Y_eq listening_X_eq unnamed_then_Y_eq record_X_def
        nothing_playing_def playing_episode_def paused_episode_def tick_without_snapshot
        end_active_refused truthy_id_def
        open_sessions_def example_defs model_defs view_defs)

subsection \<open>C5: switching from one playing episode to another\<close>

text \<open>
  Claim C5, as amended. On a tick where the active episode is A, the latest session of A
  is open, the snapshot reports another episode B playing, the store accepts both writes
  and the id of B is not only an inherited property name of the ledger object: the open
  session of A gets \<^verbatim>\<open>ended_at\<close>, B becomes the active episode and the latest session of
  B is open after the tick. A new open session is appended for B when the latest session
  of B was not already open (B is new, or its latest session has ended). The tick is one
  step of the model, so no state in between is observed.
\<close>

theorem switch_tick_closes_and_opens:
  assumes "switch_tick st inp A item" and "playing_episode inp = Some (item, p)"
      and "lookup st A = Some a" and "latest_open a"
      and "close_write_ok inp" and "store_write_ok inp"
      and "\<not> inherited_only st (item_id item)"
  shows "sessions_of (tick st inp) A
           = butlast (sessions a) @ [(last (sessions a))\<lparr> ended_at := Some (close_clock inp) \<rparr>]
       \<and> lastEpisodeId (tick st inp) = Some (item_id item)
       \<and> (\<exists>b'. lookup (tick st inp) (item_id item) = Some b' \<and> latest_open b')
       \<and> ((case lookup st (item_id item) of None \<Rightarrow> True | Some b \<Rightarrow> \<not> latest_open b) \<longrightarrow>
            sessions_of (tick st inp) (item_id item)
              = sessions_of st (item_id item) @ [new_session (store_clock inp) p])"
proof -
  from assms(1) have act: "lastEpisodeId st = Some A" "A \<noteq> []" "A \<noteq> item_id item"
    by (simp_all add: switch_tick_def)
  have 1: "sessions_of (tick st inp) A
           = butlast (sessions a) @ [(last (sessions a))\<lparr> ended_at := Some (close_clock inp) \<rparr>]"
    using assms(2-5) act by (simp add: sessions_of_def lookup_tick sessions_close_if_open)
  have 2: "lastEpisodeId (tick st inp) = Some (item_id item)"
    using assms(2) by (simp add: lastEpisodeId_tick)
  have 3: "\<exists>b'. lookup (tick st inp) (item_id item) = Some b' \<and> latest_open b'"
    using assms(2,6,7)
    by (simp add: lookup_tick latest_open_update_existing latest_open_new_episode
          split: option.splits)
  have 4: "(case lookup st (item_id item) of None \<Rightarrow> True | Some b \<Rightarrow> \<not> latest_open b) \<longrightarrow>
            sessions_of (tick st inp) (item_id item)
              = sessions_of st (item_id item) @ [new_session (store_clock inp) p]"
    using assms(2,6,7)
    by (simp add: sessions_of_def lookup_tick sessions_update_existing_closed sessions_new_episode
          split: option.splits)
  from 1 2 3 4 show ?thesis by blast
qed

theorem switch_tick_closes_and_opens_witness:
  "switch_tick listening_X (playing_at 20000 (episode_item ''Y'' 60000 ''Acme'') 0) ''X''
     (episode_item ''Y'' 60000 ''Acme'')
   \<and> playing_episode (playing_at 20000 (episode_item ''Y'' 60000 ''Acme'') 0)
       = Some (episode_item ''Y'' 60000 ''Acme'', 0)
   \<and> lookup listening_X ''X'' = Some record_X
   \<and> latest_open record_X
   \<and> close_write_ok (playing_at 20000 (episode_item ''Y'' 60000 ''Acme'') 0)
   \<and> store_write_ok (playing_at 20000 (episode_item ''Y'' 60000 ''Acme'') 0)
   \<and> \<not> inherited_only listening_X ''Y''
   \<and> lookup listening_X ''Y'' = None
   \<and> sessions_of (tick listening_X (playing_at 20000 (episode_item ''Y'' 60000 ''Acme'') 0)) ''X''
       = [(new_session 10002 0)\<lparr> ended_at := Some 20001 \<rparr>]
   \<and> sessions_of (tick listening_X (playing_at 20000 (episode_item ''Y'' 60000 ''Acme'') 0)) ''Y''
       = [new_session 20002 0]
   \<and> lastEpisodeId (tick listening_X (playing_at 20000 (episode_item ''Y'' 60000 ''Acme'') 0))
       = Some ''Y''"
proof -
  let ?inp = "playing_at 20000 (episode_item ''Y'' 60000 ''Acme'') 0"
  let ?item = "episode_item ''Y'' 60000 ''Acme''"
  have item_Y: "item_id ?item = ''Y''" by (simp add: episode_item_def)
  have sw: "switch_tick listening_X ?inp ''X'' ?item"
    and pe: "playing_episode ?inp = Some (?item, 0)"
    by (simp_all add: switch_tick_def playing_episode_def getCurrentlyPlaying_def playing_at_def
          snapshot_at_def episode_item_def listening_X_eq or_num_def)
  have lx: "lookup listening_X ''X'' = Some record_X" and ly: "lookup listening_X ''Y'' = None"
    and lo: "latest_open record_X"
    by (simp_all add: listening_X_eq lookup_def ledger_of_def record_X_fields)
  have ok: "close_write_ok ?inp" "store_write_ok ?inp"
    by (simp_all add: playing_at_def snapshot_at_def)
  have ni: "\<not> inherited_only listening_X ''Y''"
    by (simp add: inherited_only_iff)
  from ni have ni': "\<not> inherited_only listening_X (item_id ?item)" by (simp add: item_Y)
  have facts: "sessions record_X = [new_session 10002 0]"
    "close_clock ?inp = 20001" "store_clock ?inp = 20002" "sessions_of listening_X ''Y'' = []"
    by (simp_all add: record_X_fields playing_at_def snapshot_at_def sessions_of_def ly)
  from switch_tick_closes_and_opens [OF sw pe lx lo ok ni']
  have "sessions_of (tick listening_X ?inp) ''X'' = [(new_session 10002 0)\<lparr> ended_at := Some 20001 \<rparr>]
        \<and> sessions_of (tick listening_X ?inp) ''Y'' = [new_session 20002 0]
        \<and> lastEpisodeId (tick listening_X ?inp) = Some ''Y''"
    by (simp add: facts ly item_Y)
  with sw pe lx lo ly ok ni show ?thesis by simp
qed

text \<open>
  The claim as first stated (A is closed and a new session is appended for B on every
  such tick) fails when B has a session left open by an earlier stop: tracking is stopped
  while X plays, started again, Y plays, then X plays again. The last tick closes the
  session of Y and writes the progress into the old session of X; X still has one
  session. It also fails for an episode whose id is \<^verbatim>\<open>constructor\<close>: the session of X is
  closed and nothing is stored for the new episode, so no session is open.
\<close>

theorem switch_to_episode_left_open:
  "lastEpisodeId restarted_on_Y = Some ''Y''
   \<and> sessions_of restarted_on_Y ''Y'' = [new_session 40002 0]
   \<and> sessions_of restarted_on_Y ''X'' = [new_session 10002 0]
   \<and> sessions_of (tick restarted_on_Y (playing_at 50000 (episode_item ''X'' 60000 ''Acme'') 30000))
        ''X'' = [(new_session 10002 0)\<lparr> session_progress_ms := 30000 \<rparr>]
   \<and> sessions_of (tick restarted_on_Y (playing_at 50000 (episode_item ''X'' 60000 ''Acme'') 30000))
        ''Y'' = [(new_session 40002 0)\<lparr> ended_at := Some 50001 \<rparr>]
   \<and> lastEpisodeId listening_X = Some ''X''
   \<and> sessions_of switched_to_constructor ''X'' = [(new_session 10002 0)\<lparr> ended_at := Some 20001 \<rparr>]
   \<and> lookup switched_to_constructor ''constructor'' = None
   \<and> lastEpisodeId switched_to_constructor = Some ''constructor''"
  by (simp add: restarted_on_Y_eq switched_to_constructor_eq listening_X_eq closed_record_X_eq
        record_X_def new_session_def example_defs model_defs view_defs)

subsection \<open>C6: a paused tick for the active episode\<close>

text \<open>
  Claim C6. On a tick whose snapshot reports the active episode with \<^verbatim>\<open>is_playing\<close>
  false, the callback only stores the time of the poll: the ledger is the same, so the
  episode's \<^verbatim>\<open>total_played_ms\<close> does not grow and its open session is neither closed
  nor extended, and the active episode stays the same.
\<close>

theorem paused_active_episode_tick:
  assumes "tick_response inp = OkJson pb" and "pb_item pb = Some item"
      and "item_type item = ''episode''" and "\<not> is_playing pb"
      and "lastEpisodeId st = Some (item_id item)"
  shows "tick st inp = st\<lparr> lastPollTime := tick_now inp \<rparr>"
  using assms by (simp add: tick_def getCurrentlyPlaying_def Let_def)

theorem paused_active_episode_tick_witness:
  "tick listening_X (paused_at 20000 (episode_item ''X'' 60000 ''Acme'') 10000)
     = listening_X\<lparr> lastPollTime := 20000 \<rparr>
   \<and> lookup (tick listening_X (paused_at 20000 (episode_item ''X'' 60000 ''Acme'') 10000)) ''X''
     = Some record_X
   \<and> latest_open record_X \<and> total_played_ms record_X = 10000"
proof -
  let ?inp = "paused_at 20000 (episode_item ''X'' 60000 ''Acme'') 10000"
  let ?pb = "\<lparr> pb_item = Some (episode_item ''X'' 60000 ''Acme''), is_playing = False,
               pb_progress_ms = Some 10000 \<rparr>"
  have "tick listening_X ?inp = listening_X\<lparr> lastPollTime := tick_now ?inp \<rparr>"
    by (rule paused_active_episode_tick [where pb = ?pb and item = "episode_item ''X'' 60000 ''Acme''"])
       (simp_all add: paused_at_def snapshot_at_def episode_item_def listening_X_eq)
  then have t: "tick listening_X ?inp = listening_X\<lparr> lastPollTime := 20000 \<rparr>"
    by (simp add: paused_at_def snapshot_at_def)
  have "lookup (listening_X\<lparr> lastPollTime := 20000 \<rparr>) ''X'' = Some record_X"
    by (simp add: listening_X_eq lookup_def ledger_of_def)
  moreover have "latest_open record_X \<and> total_played_ms record_X = 10000"
    by (simp add: record_X_fields)
  ultimately show ?thesis using t by simp
qed

subsection \<open>C7: recorded metadata\<close>

text \<open>
  Claim C7. Once an episode is in the ledger, no sequence of ticks changes its metadata
  (id, name, description, duration, release date, images, type, show id, show name,
  publisher, show images), whatever the later snapshots carry: a snapshot with an empty
  or missing field does not erase the stored value. The witness is the scenario of the
  specification: the publisher is recorded as Acme, a later snapshot carries an empty
  publisher, the stored publisher is still Acme.
\<close>

theorem recorded_metadata_is_kept:
  assumes "lookup st k = Some r"
  shows "\<exists>r'. lookup (run st inps) k = Some r' \<and> metadata r' = metadata r"
  using assms
proof (induction inps arbitrary: st r)
  case Nil
  then show ?case by (simp add: run_def)
next
  case (Cons inp inps)
  from tick_keeps_metadata [OF Cons.prems, of inp]
  obtain r1 where r1: "lookup (tick st inp) k = Some r1" "metadata r1 = metadata r" by blast
  from Cons.IH [OF r1(1)] r1(2) show ?case by (simp add: run_def)
qed

theorem recorded_metadata_is_kept_witness:
  "lookup listening_X ''X'' = Some record_X
   \<and> publisher (parent_show record_X) = ''Acme''
   \<and> (\<exists>r'. lookup (run listening_X [playing_at 20000 (episode_item ''X'' 60000 '''') 10000]) ''X''
             = Some r'
           \<and> metadata r' = metadata record_X
           \<and> publisher (parent_show r') = ''Acme'')"
proof -
  have a: "lookup listening_X ''X'' = Some record_X"
    by (simp add: listening_X_eq lookup_def ledger_of_def)
  have b: "publisher (parent_show record_X) = ''Acme''"
    by (simp add: record_X_fields)
  from recorded_metadata_is_kept [OF a, of "[playing_at 20000 (episode_item ''X'' 60000 '''') 10000]"]
  obtain r' where r': "lookup (run listening_X [playing_at 20000 (episode_item ''X'' 60000 '''') 10000]) ''X'' = Some r'"
    "metadata r' = metadata record_X" by blast
  from r'(2) b have "publisher (parent_show r') = ''Acme''" by (simp add: metadata_def)
  with a b r' show ?thesis by blast
qed

subsection \<open>C8: the recently played episodes\<close>

text \<open>
  Claim C8. The limit is a count of entries, so it is not negative. For every ledger and
  every such limit, \<^verbatim>\<open>getRecentlyPlayedEpisodes\<close> returns the first \<open>limit\<close> records of the
  stored records sorted by \<^verbatim>\<open>last_played_at\<close>, latest first, each in the reporting shape
  with \<^verbatim>\<open>played_at\<close> taken from \<^verbatim>\<open>last_played_at\<close> and the other fields copied: the sorted
  list is a permutation of the stored records, the result is in descending order of
  \<^verbatim>\<open>played_at\<close> and has at most \<open>limit\<close> entries (\<open>min limit n\<close> for \<open>n\<close> stored records).
  An omitted limit is 50.
\<close>

theorem recently_played_order_and_limit:
  assumes "0 \<le> limit"
  shows "getRecentlyPlayedEpisodes st (Some limit)
           = map (\<lambda>e. \<lparr> rep_id = episode_id e, rep_name = name e,
                         rep_description = description e, rep_duration_ms = duration_ms e,
                         rep_release_date = release_date e, rep_images = images e,
                         rep_type = episode_type e, rep_show = parent_show e,
                         rep_played_at = last_played_at e, rep_progress_ms = progress_ms e,
                         rep_total_played_ms = total_played_ms e \<rparr>)
                 (take (nat limit) (getStoredEpisodes st))
       \<and> mset (getStoredEpisodes st) = mset (map snd (ledger_of st))
       \<and> sorted_wrt (\<lambda>a b. last_played_at b \<le> last_played_at a) (getStoredEpisodes st)
       \<and> sorted_wrt (\<lambda>a b. rep_played_at b \<le> rep_played_at a)
           (getRecentlyPlayedEpisodes st (Some limit))
       \<and> int (length (getRecentlyPlayedEpisodes st (Some limit))) \<le> limit
       \<and> int (length (getRecentlyPlayedEpisodes st (Some limit)))
           = min limit (int (length (ledger_of st)))
       \<and> getRecentlyPlayedEpisodes st None = getRecentlyPlayedEpisodes st (Some 50)"
proof -
  have 0: "getRecentlyPlayedEpisodes st (Some limit)
           = map to_report (take (nat limit) (getStoredEpisodes st))"
    using assms by (simp add: getRecentlyPlayedEpisodes_def slice0_nonneg)
  have 1: "getRecentlyPlayedEpisodes st (Some limit)
           = map (\<lambda>e. \<lparr> rep_id = episode_id e, rep_name = name e,
                         rep_description = description e, rep_duration_ms = duration_ms e,
                         rep_release_date = release_date e, rep_images = images e,
                         rep_type = episode_type e, rep_show = parent_show e,
                         rep_played_at = last_played_at e, rep_progress_ms = progress_ms e,
                         rep_total_played_ms = total_played_ms e \<rparr>)
                 (take (nat limit) (getStoredEpisodes st))"
    unfolding 0 by (rule map_cong) (simp_all add: to_report_def)
  have "sorted_wrt (\<lambda>a b. last_played_at b \<le> last_played_at a)
          (take (nat limit) (getStoredEpisodes st))"
    by (rule sorted_wrt_take [OF sorted_getStoredEpisodes])
  then have 4: "sorted_wrt (\<lambda>a b. rep_played_at b \<le> rep_played_at a)
           (getRecentlyPlayedEpisodes st (Some limit))"
    by (simp add: 0 sorted_wrt_map to_report_def)
  have "length (getStoredEpisodes st) = length (ledger_of st)"
    using mset_getStoredEpisodes [of st] by (metis length_map size_mset)
  then have 5: "int (length (getRecentlyPlayedEpisodes st (Some limit)))
           = min limit (int (length (ledger_of st)))"
    using assms by (simp add: 0)
  then have 6: "int (length (getRecentlyPlayedEpisodes st (Some limit))) \<le> limit"
    by simp
  have 7: "getRecentlyPlayedEpisodes st None = getRecentlyPlayedEpisodes st (Some 50)"
    by (simp add: getRecentlyPlayedEpisodes_def)
  from 1 mset_getStoredEpisodes sorted_getStoredEpisodes 4 5 6 7 show ?thesis by blast
qed

theorem recently_played_order_and_limit_witness:
  "(0::int) \<le> 1
   \<and> length (ledger_of switched_to_Y) = 2
   \<and> getRecentlyPlayedEpisodes switched_to_Y (Some 1)
       = [\<lparr> rep_id = ''Y'', rep_name = ''Y'', rep_description = [], rep_duration_ms = 60000,
            rep_release_date = [], rep_images = [], rep_type = ''episode'',
            rep_show = \<lparr> show_id = ''show'', show_name = ''Show'', publisher = ''Acme'',
                         show_images = [] \<rparr>,
            rep_played_at = 20002, rep_progress_ms = 0, rep_total_played_ms = 10000 \<rparr>]
   \<and> int (length (getRecentlyPlayedEpisodes switched_to_Y (Some 1))) = 1"
proof -
  have h: "(0::int) \<le> 1" by simp
  have l: "length (ledger_of switched_to_Y) = 2"
    by (simp add: ledger_of_def switched_to_Y_eq)
  note w = recently_played_order_and_limit [OF h, of switched_to_Y]
  from w have "getRecentlyPlayedEpisodes switched_to_Y (Some 1)
           = map (\<lambda>e. \<lparr> rep_id = episode_id e, rep_name = name e,
                         rep_description = description e, rep_duration_ms = duration_ms e,
                         rep_release_date = release_date e, rep_images = images e,
                         rep_type = episode_type e, rep_show = parent_show e,
                         rep_played_at = last_played_at e, rep_progress_ms = progress_ms e,
                         rep_total_played_ms = total_played_ms e \<rparr>)
                 (take (nat 1) (getStoredEpisodes switched_to_Y))"
    by (rule conjunct1)
  then have a: "getRecentlyPlayedEpisodes switched_to_Y (Some 1)
       = [\<lparr> rep_id = ''Y'', rep_name = ''Y'', rep_description = [], rep_duration_ms = 60000,
            rep_release_date = [], rep_images = [], rep_type = ''episode'',
            rep_show = \<lparr> show_id = ''show'', show_name = ''Show'', publisher = ''Acme'',
                         show_images = [] \<rparr>,
            rep_played_at = 20002, rep_progress_ms = 0, rep_total_played_ms = 10000 \<rparr>]"
    by (simp add: recent_of_switched_to_Y new_episode_def episode_item_def or_str_def or_list_def
          or_num_def)
  from w have "int (length (getRecentlyPlayedEpisodes switched_to_Y (Some 1)))
           = min 1 (int (length (ledger_of switched_to_Y)))"
    by blast
  with l have b: "int (length (getRecentlyPlayedEpisodes switched_to_Y (Some 1))) = 1" by simp
  from h l a b show ?thesis by blast
qed

subsection \<open>C9: closing without an open session\<close>

text \<open>
  Claim C9. \<^verbatim>\<open>updateSessionEnd\<close> changes nothing when there is no open session for the
  episode id: the ledger entry of the store is absent, the episode is not in the ledger,
  the episode has no session, or its latest session already has \<^verbatim>\<open>ended_at\<close>. In each
  of these cases the call returns the state it was given, whether or not the store would
  accept a write, so the ledger and every \<^verbatim>\<open>total_played_ms\<close> in it are as before; the
  call itself never raises.
\<close>

theorem updateSessionEnd_without_open_session:
  assumes "storage st = None
         \<or> (\<exists>l. storage st = Some l \<and> map_of l eid = None)
         \<or> (\<exists>l e. storage st = Some l \<and> map_of l eid = Some e \<and> sessions e = [])
         \<or> (\<exists>l e t. storage st = Some l \<and> map_of l eid = Some e \<and> sessions e \<noteq> []
                     \<and> ended_at (last (sessions e)) = Some t)"
  shows "updateSessionEnd st eid finalTimeMs now accepted = st"
  using assms
  by (auto simp: updateSessionEnd_def updateSessionEnd_try_def get_property_def last_session_def)

theorem updateSessionEnd_without_open_session_witness:
  "storage stopped_X = Some [(''X'', closed_record_X)]
   \<and> map_of [(''X'', closed_record_X)] ''X'' = Some closed_record_X
   \<and> sessions closed_record_X \<noteq> []
   \<and> ended_at (last (sessions closed_record_X)) = Some 20001
   \<and> updateSessionEnd stopped_X ''X'' 5000 30001 True = stopped_X"
proof -
  have h: "storage stopped_X = Some [(''X'', closed_record_X)]
           \<and> map_of [(''X'', closed_record_X)] ''X'' = Some closed_record_X
           \<and> sessions closed_record_X \<noteq> []
           \<and> ended_at (last (sessions closed_record_X)) = Some 20001"
    by (simp add: stopped_X_eq sessions_closed_record_X)
  then have "updateSessionEnd stopped_X ''X'' 5000 30001 True = stopped_X"
    by (intro updateSessionEnd_without_open_session) blast
  with h show ?thesis by blast
qed

subsection \<open>C10: starting twice\<close>

text \<open>
  Claim C10. \<^verbatim>\<open>startPlaybackTracking\<close> returns the state unchanged when a timer handle is
  already stored: no timer is added, \<^verbatim>\<open>lastPollTime\<close> and \<^verbatim>\<open>lastEpisodeId\<close> are not
  reset. A second call right after a first one therefore changes nothing (the handle of
  \<^verbatim>\<open>setInterval\<close> is not 0).
\<close>

theorem start_while_tracking:
  "(truthy_handle (pollingInterval st) \<longrightarrow> startPlaybackTracking st now h = st)
 \<and> (h \<noteq> 0 \<longrightarrow> startPlaybackTracking (startPlaybackTracking st now h) now' h'
                 = startPlaybackTracking st now h)"
  by (simp add: startPlaybackTracking_def truthy_handle_def)

theorem start_while_tracking_witness:
  "truthy_handle (pollingInterval listening_X)
   \<and> startPlaybackTracking listening_X 30000 2 = listening_X
   \<and> timers (startPlaybackTracking listening_X 30000 2) = [1]
   \<and> lastPollTime (startPlaybackTracking listening_X 30000 2) = 10000
   \<and> lastEpisodeId (startPlaybackTracking listening_X 30000 2) = Some ''X''
   \<and> (1::nat) \<noteq> 0
   \<and> startPlaybackTracking (startPlaybackTracking idle_service 0 1) 30000 2
       = startPlaybackTracking idle_service 0 1"
proof -
  have a: "truthy_handle (pollingInterval listening_X)"
    by (simp add: listening_X_eq truthy_handle_def)
  with start_while_tracking [where st = listening_X and now = 30000 and h = 2]
  have b: "startPlaybackTracking listening_X 30000 2 = listening_X" by blast
  from start_while_tracking [where st = idle_service and now = 0 and h = 1 and now' = 30000 and h' = 2]
  have c: "startPlaybackTracking (startPlaybackTracking idle_service 0 1) 30000 2
       = startPlaybackTracking idle_service 0 1" by simp
  from a b c show ?thesis by (simp add: listening_X_eq)
qed

end
